theory Spec2Isabelle
  imports Complex_Main "HOL-Library.AList"
begin

section \<open>Data model\<close>

text \<open>
  The two visualizers (\<^verbatim>\<open>MultiTumorNetworkVisualizer\<close> in \<^verbatim>\<open>tumor_network.py\<close> and
  \<^verbatim>\<open>BadSurvivalTreeVisualizer\<close> in \<^verbatim>\<open>bad_survival_tree.py\<close>) share their settings and
  their loader. Python floats are modelled as exact reals: rounding is outside the model.
  A Python \<^verbatim>\<open>dict\<close> keeps its keys in insertion order and an assignment to an existing
  key keeps the key's position, so a dict is an association list written with
  \<^const>\<open>AList.update\<close> and read with \<^const>\<open>map_of\<close>.
\<close>

datatype error =
    ZeroDivisionError
  | KeyError string
  | AssertionError string
  | ValueError

type_synonym row = "string \<times> real"
  \<comment> \<open>one row of a table: (\<^verbatim>\<open>'Gene Symbol'\<close>, \<^verbatim>\<open>'PCC'\<close>)\<close>

type_synonym dataframe = "row list"

type_synonym 'v dict = "(string \<times> 'v) list"

record visualizer =
  tumor_types :: "string list"
  min_correlation :: real
  max_genes_per_tumor :: int
  node_size_range :: "real \<times> real"
  edge_width_range :: "real \<times> real"
  gene_counts :: "nat dict"

definition network_init :: visualizer where
  \<comment> \<open>\<^verbatim>\<open>MultiTumorNetworkVisualizer.__init__\<close>\<close>
  "network_init =
     \<lparr> tumor_types = [], min_correlation = 0.5, max_genes_per_tumor = 1000,
       node_size_range = (3, 10), edge_width_range = (0.3, 1.5), gene_counts = [] \<rparr>"

definition tree_init :: visualizer where
  \<comment> \<open>\<^verbatim>\<open>BadSurvivalTreeVisualizer.__init__\<close>\<close>
  "tree_init =
     \<lparr> tumor_types = [], min_correlation = 0.5, max_genes_per_tumor = 1000,
       node_size_range = (8, 16), edge_width_range = (0.5, 2.5), gene_counts = [] \<rparr>"

section \<open>Score to size and width\<close>

definition py_div :: "real \<Rightarrow> real \<Rightarrow> error + real" where
  \<comment> \<open>Python's \<^verbatim>\<open>a / b\<close> on floats\<close>
  "py_div a b = (if b = 0 then Inl ZeroDivisionError else Inr (a / b))"

definition network_node_size :: "visualizer \<Rightarrow> real \<Rightarrow> error + real" where
  \<comment> \<open>\<^verbatim>\<open>size = size_min + (pcc - self.min_correlation) * (size_max - size_min) / (1 - self.min_correlation)\<close>\<close>
  "network_node_size self pcc =
     (case node_size_range self of (size_min, size_max) \<Rightarrow>
        (case py_div ((pcc - min_correlation self) * (size_max - size_min))
                     (1 - min_correlation self) of
           Inl e \<Rightarrow> Inl e
         | Inr q \<Rightarrow> Inr (size_min + q)))"

definition network_edge_width :: "visualizer \<Rightarrow> real \<Rightarrow> real" where
  \<comment> \<open>\<^verbatim>\<open>width = width_min + (pcc - self.min_correlation) * (width_max - width_min)\<close>\<close>
  "network_edge_width self pcc =
     (case edge_width_range self of (width_min, width_max) \<Rightarrow>
        width_min + (pcc - min_correlation self) * (width_max - width_min))"

definition size_scale :: "visualizer \<Rightarrow> real \<Rightarrow> error + real" where
  \<comment> \<open>\<^verbatim>\<open>size_scale = (correlation - self.min_correlation) / (1 - self.min_correlation)\<close>\<close>
  "size_scale self correlation =
     py_div (correlation - min_correlation self) (1 - min_correlation self)"

definition tree_node_size :: "visualizer \<Rightarrow> real \<Rightarrow> real" where
  \<comment> \<open>\<^verbatim>\<open>node_size = self.node_size_range[0] + size_scale * (self.node_size_range[1] - self.node_size_range[0])\<close>\<close>
  "tree_node_size self scale =
     fst (node_size_range self) + scale * (snd (node_size_range self) - fst (node_size_range self))"

definition tree_edge_width :: "visualizer \<Rightarrow> real \<Rightarrow> real" where
  \<comment> \<open>\<^verbatim>\<open>edge_width = self.edge_width_range[0] + size_scale * (self.edge_width_range[1] - self.edge_width_range[0])\<close>\<close>
  "tree_edge_width self scale =
     fst (edge_width_range self) + scale * (snd (edge_width_range self) - fst (edge_width_range self))"

text \<open>
  The interpolation the specification describes, for comparison with the code: the
  interpolant \<open>t\<close> clamped to \<open>[0, 1]\<close>, and the linear map onto an output range.
\<close>

definition spec_t :: "real \<Rightarrow> real \<Rightarrow> real \<Rightarrow> real" where
  "spec_t s minScore maxScore = max 0 (min 1 ((s - minScore) / (maxScore - minScore)))"

definition spec_interpolate :: "real \<times> real \<Rightarrow> real \<Rightarrow> real" where
  "spec_interpolate out t = fst out + t * (snd out - fst out)"

section \<open>Aggregation in \<^verbatim>\<open>create_network\<close>\<close>

definition record_gene :: "string \<Rightarrow> real dict dict \<Rightarrow> row \<Rightarrow> real dict dict" where
  \<comment> \<open>the body of the inner loop: \<^verbatim>\<open>if gene_id not in all_genes: all_genes[gene_id] = {}\<close>,
      then \<^verbatim>\<open>all_genes[gene_id][tumor_type] = pcc\<close>\<close>
  "record_gene tumor_type all_genes r =
     (case r of (gene_id, pcc) \<Rightarrow>
        (let all_genes1 =
               (if gene_id \<notin> fst ` set all_genes then AList.update gene_id [] all_genes
                else all_genes)
         in case map_of all_genes1 gene_id of
              None \<Rightarrow> all_genes1
            | Some tumors \<Rightarrow>
                AList.update gene_id (AList.update tumor_type pcc tumors) all_genes1))"

definition collect_table :: "real dict dict \<Rightarrow> string \<times> dataframe \<Rightarrow> real dict dict" where
  \<comment> \<open>\<^verbatim>\<open>for _, row in df.iterrows(): ...\<close>\<close>
  "collect_table all_genes item =
     (case item of (tumor_type, df) \<Rightarrow> foldl (record_gene tumor_type) all_genes df)"

definition collect_genes :: "dataframe dict \<Rightarrow> real dict dict" where
  \<comment> \<open>\<^verbatim>\<open>for tumor_type, df in tumor_data.items(): ...\<close>, starting from \<^verbatim>\<open>all_genes = {}\<close>\<close>
  "collect_genes tumor_data = foldl collect_table [] tumor_data"

definition cross_tumor_genes :: "real dict dict \<Rightarrow> real dict dict" where
  \<comment> \<open>\<^verbatim>\<open>{gene: tumors for gene, tumors in all_genes.items() if len(tumors) > 1}\<close>\<close>
  "cross_tumor_genes all_genes = filter (\<lambda>(gene, tumors). length tumors > 1) all_genes"

definition membership :: "real dict dict \<Rightarrow> string \<Rightarrow> string \<Rightarrow> real option" where
  \<comment> \<open>reading \<^verbatim>\<open>all_genes[gene][tumor]\<close>, \<open>None\<close> where a key is absent\<close>
  "membership all_genes gene tumor =
     (case map_of all_genes gene of None \<Rightarrow> None | Some tumors \<Rightarrow> map_of tumors tumor)"

fun py_max_item :: "string \<times> real \<Rightarrow> real dict \<Rightarrow> string \<times> real" where
  \<comment> \<open>Python's \<^verbatim>\<open>max(items, key=lambda x: x[1])\<close>: the running maximum is replaced only by
      a strictly greater key, so the first maximal item wins\<close>
  "py_max_item best [] = best"
| "py_max_item best (x # xs) = py_max_item (if snd best < snd x then x else best) xs"

definition main_tumor :: "real dict \<Rightarrow> error + string" where
  \<comment> \<open>\<^verbatim>\<open>main_tumor = max(tumor_pccs.items(), key=lambda x: x[1])[0]\<close>; \<^verbatim>\<open>max\<close> of an empty
      sequence raises \<^verbatim>\<open>ValueError\<close>\<close>
  "main_tumor tumor_pccs =
     (case tumor_pccs of [] \<Rightarrow> Inl ValueError | x # xs \<Rightarrow> Inr (fst (py_max_item x xs)))"

definition lookup :: "'v dict \<Rightarrow> string \<Rightarrow> error + 'v" where
  \<comment> \<open>\<^verbatim>\<open>d[k]\<close>\<close>
  "lookup d k = (case map_of d k of None \<Rightarrow> Inl (KeyError k) | Some v \<Rightarrow> Inr v)"

section \<open>The network object\<close>

text \<open>
  Both programs build a \<^verbatim>\<open>pyvis.network.Network\<close>. The model keeps of a node its id,
  shape and size and of an edge its end points and width; colours, tooltips and fonts are
  left out. In the tree program a node also carries the coordinates it is given and
  whether it is fixed there: the place of a tumor node depends on the position of its
  table among all tables. In the network program the coordinates are left out: those of a
  cross-tumor gene are drawn at random (\<^verbatim>\<open>np.random.uniform\<close>). \<^verbatim>\<open>add_node\<close> ignores an
  id that is already present; \<^verbatim>\<open>add_edge\<close> asserts that both end points exist and, in an
  undirected network, ignores an edge between two nodes that are already joined.
\<close>

datatype shape = Dot | Diamond | Box | Ellipse

record node =
  node_id :: string
  node_shape :: shape
  node_size :: real

record placed_node = node +
  node_position :: "(real \<times> real) option"
  node_fixed :: bool

record edge =
  edge_from :: string
  edge_to :: string
  edge_width :: real

record 'a network =
  directed :: bool
  nodes :: "'a node_scheme list"
  edges :: "edge list"

type_synonym plain_network = "unit network"
  \<comment> \<open>the network of \<^verbatim>\<open>tumor_network.py\<close>\<close>

type_synonym placed_network = "unit placed_node_ext network"
  \<comment> \<open>the network of \<^verbatim>\<open>bad_survival_tree.py\<close>, its nodes of type \<open>placed_node\<close>\<close>

definition node_ids :: "'a network \<Rightarrow> string list" where
  "node_ids net = map node_id (nodes net)"

definition add_node :: "'a network \<Rightarrow> 'a node_scheme \<Rightarrow> 'a network" where
  "add_node net n =
     (if node_id n \<notin> set (node_ids net) then net\<lparr>nodes := nodes net @ [n]\<rparr> else net)"

definition edge_exists :: "'a network \<Rightarrow> string \<Rightarrow> string \<Rightarrow> bool" where
  "edge_exists net source to =
     list_ex (\<lambda>e. (source = edge_to e \<and> to = edge_from e) \<or> (source = edge_from e \<and> to = edge_to e))
       (edges net)"

definition add_edge :: "'a network \<Rightarrow> edge \<Rightarrow> error + 'a network" where
  "add_edge net e =
     (if edge_from e \<notin> set (node_ids net) then Inl (AssertionError (edge_from e))
      else if edge_to e \<notin> set (node_ids net) then Inl (AssertionError (edge_to e))
      else if \<not> directed net \<and> edge_exists net (edge_from e) (edge_to e) then Inr net
      else Inr (net\<lparr>edges := edges net @ [e]\<rparr>))"

definition update_node ::
  "'a network \<Rightarrow> string \<Rightarrow> ('a node_scheme \<Rightarrow> 'a node_scheme) \<Rightarrow> error + 'a network" where
  \<comment> \<open>\<^verbatim>\<open>net.get_node(n_id)[...] = ...\<close>: the stored node is changed in place\<close>
  "update_node net n_id f =
     (if n_id \<notin> set (node_ids net) then Inl (KeyError n_id)
      else Inr (net\<lparr>nodes := map (\<lambda>n. if node_id n = n_id then f n else n) (nodes net)\<rparr>))"

fun for_each :: "('s \<Rightarrow> 'a \<Rightarrow> error + 's) \<Rightarrow> 's \<Rightarrow> 'a list \<Rightarrow> error + 's" where
  \<comment> \<open>a \<^verbatim>\<open>for\<close> loop whose body may raise: the first exception ends the loop\<close>
  "for_each body s [] = Inr s"
| "for_each body s (x # xs) =
     (case body s x of Inl e \<Rightarrow> Inl e | Inr s1 \<Rightarrow> for_each body s1 xs)"

definition increment :: "nat dict \<Rightarrow> string \<Rightarrow> error + nat dict" where
  \<comment> \<open>\<^verbatim>\<open>self.gene_counts[tumor_type] += 1\<close>\<close>
  "increment counts k =
     (case map_of counts k of
        None \<Rightarrow> Inl (KeyError k)
      | Some n \<Rightarrow> Inr (AList.update k (n + 1) counts))"

section \<open>The loader\<close>

text \<open>
  A table is a list of rows that each carry a gene symbol and a score: the model covers
  the files that have both columns \<^verbatim>\<open>Gene Symbol\<close> and \<^verbatim>\<open>PCC\<close>. A file that has
  \<^verbatim>\<open>PCC\<close> but no \<^verbatim>\<open>Gene Symbol\<close> passes the loader and makes \<^verbatim>\<open>create_network\<close> and
  \<^verbatim>\<open>create_survival_tree\<close> raise \<^verbatim>\<open>KeyError\<close> when they first read that column; such
  files are outside the model, and what is said below about the two functions returning is
  said of tables with both columns.
\<close>

datatype csv_file =
    ReadFails
  | FilterFails
  | Table dataframe

datatype log_entry =
    LogInfo string nat
  | LogError string
  | LogWarning string

definition file_path :: "string \<Rightarrow> string \<Rightarrow> string" where
  \<comment> \<open>\<^verbatim>\<open>os.path.join(data_dir, f"{tumor_type}.csv")\<close>\<close>
  "file_path data_dir tumor_type = data_dir @ ''/'' @ tumor_type @ ''.csv''"

definition load_one ::
  "real \<Rightarrow> (string \<Rightarrow> csv_file) \<Rightarrow> string
     \<Rightarrow> dataframe dict \<times> nat dict \<times> log_entry list \<Rightarrow> string
     \<Rightarrow> dataframe dict \<times> nat dict \<times> log_entry list" where
  \<comment> \<open>one round of the loop of \<^verbatim>\<open>load_all_data\<close>: the \<^verbatim>\<open>try\<close> body and its
      \<^verbatim>\<open>except Exception\<close>. \<open>ReadFails\<close> is a file on which \<^verbatim>\<open>pd.read_csv\<close> raises,
      \<open>FilterFails\<close> one that is read but on which \<^verbatim>\<open>df['PCC'] >= self.min_correlation\<close>
      raises (no such column, or not numeric)\<close>
  "load_one threshold fs data_dir st tumor_type =
     (case st of (all_data, counts, logged) \<Rightarrow>
        (case fs (file_path data_dir tumor_type) of
           ReadFails \<Rightarrow> (all_data, counts, logged @ [LogError tumor_type])
         | FilterFails \<Rightarrow>
             (all_data, AList.update tumor_type 0 counts, logged @ [LogError tumor_type])
         | Table df \<Rightarrow>
             (let high_corr_df = filter (\<lambda>r. snd r \<ge> threshold) df
              in (AList.update tumor_type high_corr_df all_data,
                  AList.update tumor_type 0 counts,
                  logged @ [LogInfo tumor_type (length high_corr_df)]))))"

definition load_all_data ::
  "visualizer \<Rightarrow> (string \<Rightarrow> csv_file) \<Rightarrow> string \<Rightarrow> string list
     \<Rightarrow> dataframe dict \<times> visualizer \<times> log_entry list" where
  \<comment> \<open>\<open>discovered\<close> is what \<^verbatim>\<open>discover_tumor_types\<close> returns for the directory\<close>
  "load_all_data self fs data_dir discovered =
     (case foldl (load_one (min_correlation self) fs data_dir)
             ([], gene_counts self, []) discovered of
        (all_data, counts, logged) \<Rightarrow>
          (all_data, self\<lparr>tumor_types := discovered, gene_counts := counts\<rparr>, logged))"

section \<open>\<^verbatim>\<open>MultiTumorNetworkVisualizer.create_network\<close>\<close>

text \<open>
  \<^verbatim>\<open>tumor_positions\<close> is kept as the list of its keys: the coordinates stored under them
  only place nodes on the canvas.
\<close>

definition tumor_node_step ::
  "dataframe dict \<Rightarrow> plain_network \<times> string list \<times> nat dict \<Rightarrow> string
     \<Rightarrow> error + plain_network \<times> string list \<times> nat dict" where
  \<comment> \<open>the loop \<^verbatim>\<open>for idx, tumor_type in enumerate(self.tumor_types)\<close> that adds tumor nodes\<close>
  "tumor_node_step tumor_data st tumor_type =
     (case st of (net, tumor_positions, counts) \<Rightarrow>
        if tumor_type \<notin> fst ` set tumor_data then Inr st
        else
          (case add_edge
                  (add_node net \<lparr>node_id = tumor_type, node_shape = Dot, node_size = 20\<rparr>)
                  \<lparr>edge_from = ''GCH1'', edge_to = tumor_type, edge_width = 2\<rparr> of
             Inl e \<Rightarrow> Inl e
           | Inr net1 \<Rightarrow>
               Inr (net1, List.insert tumor_type tumor_positions,
                    AList.update tumor_type 0 counts)))"

definition specific_gene_step ::
  "visualizer \<Rightarrow> string \<Rightarrow> plain_network \<times> nat dict \<Rightarrow> row \<Rightarrow> error + plain_network \<times> nat dict" where
  \<comment> \<open>the body of \<^verbatim>\<open>for gene_idx, (_, gene_row) in enumerate(tumor_specific_genes.iterrows())\<close>\<close>
  "specific_gene_step self tumor_type st r =
     (case st of (net, counts) \<Rightarrow> case r of (gene_id, pcc) \<Rightarrow>
        (case network_node_size self pcc of
           Inl e \<Rightarrow> Inl e
         | Inr sz \<Rightarrow>
             (case add_edge
                     (add_node net \<lparr>node_id = gene_id, node_shape = Dot, node_size = sz\<rparr>)
                     \<lparr>edge_from = tumor_type, edge_to = gene_id,
                      edge_width = network_edge_width self pcc\<rparr> of
                Inl e \<Rightarrow> Inl e
              | Inr net1 \<Rightarrow>
                  (case increment counts tumor_type of
                     Inl e \<Rightarrow> Inl e
                   | Inr counts1 \<Rightarrow> Inr (net1, counts1)))))"

definition is_tumor_specific :: "real dict dict \<Rightarrow> string \<Rightarrow> bool" where
  \<comment> \<open>\<^verbatim>\<open>lambda g: g in all_genes and len(all_genes[g]) == 1\<close>\<close>
  "is_tumor_specific all_genes g =
     (case map_of all_genes g of None \<Rightarrow> False | Some tumors \<Rightarrow> length tumors = 1)"

definition sort_by_pcc_descending :: "dataframe \<Rightarrow> dataframe" where
  \<comment> \<open>\<^verbatim>\<open>sort_values('PCC', ascending=False)\<close>. The program does not fix the order among
      rows of equal score (pandas sorts with its default, non-stable quicksort); the model
      keeps them in the order of the table. Only the order in which gene nodes are added
      depends on it, and no statement below does\<close>
  "sort_by_pcc_descending df = sort_key (\<lambda>r. - snd r) df"

definition tumor_specific_step ::
  "visualizer \<Rightarrow> dataframe dict \<Rightarrow> real dict dict \<Rightarrow> string list
     \<Rightarrow> plain_network \<times> nat dict \<Rightarrow> string \<Rightarrow> error + plain_network \<times> nat dict" where
  \<comment> \<open>the loop \<^verbatim>\<open>for tumor_type in self.tumor_types\<close> that adds tumor-specific genes\<close>
  "tumor_specific_step self tumor_data all_genes tumor_positions st tumor_type =
     (case map_of tumor_data tumor_type of
        None \<Rightarrow> Inr st
      | Some df \<Rightarrow>
          if tumor_type \<notin> set tumor_positions then Inl (KeyError tumor_type)
          else
            (let tumor_specific_genes = filter (\<lambda>r. is_tumor_specific all_genes (fst r)) df;
                 ordered = (if tumor_specific_genes \<noteq> []
                            then sort_by_pcc_descending tumor_specific_genes
                            else tumor_specific_genes)
             in for_each (specific_gene_step self tumor_type) st ordered))"

definition cross_edge_step ::
  "visualizer \<Rightarrow> string \<Rightarrow> plain_network \<times> nat dict \<Rightarrow> string \<times> real
     \<Rightarrow> error + plain_network \<times> nat dict" where
  \<comment> \<open>the body of \<^verbatim>\<open>for tumor_type, pcc in tumor_pccs.items()\<close>\<close>
  "cross_edge_step self gene_id st item =
     (case st of (net, counts) \<Rightarrow> case item of (tumor_type, pcc) \<Rightarrow>
        if pcc \<ge> min_correlation self then
          (case add_edge net
                  \<lparr>edge_from = tumor_type, edge_to = gene_id,
                   edge_width = network_edge_width self pcc\<rparr> of
             Inl e \<Rightarrow> Inl e
           | Inr net1 \<Rightarrow>
               (case increment counts tumor_type of
                  Inl e \<Rightarrow> Inl e
                | Inr counts1 \<Rightarrow> Inr (net1, counts1)))
        else Inr st)"

definition cross_gene_step ::
  "visualizer \<Rightarrow> string list \<Rightarrow> plain_network \<times> nat dict \<Rightarrow> string \<times> real dict
     \<Rightarrow> error + plain_network \<times> nat dict" where
  \<comment> \<open>the body of \<^verbatim>\<open>for gene_id, tumor_pccs in cross_tumor_genes.items()\<close>\<close>
  "cross_gene_step self tumor_positions st item =
     (case st of (net, counts) \<Rightarrow> case item of (gene_id, tumor_pccs) \<Rightarrow>
        (case main_tumor tumor_pccs of
           Inl e \<Rightarrow> Inl e
         | Inr main \<Rightarrow>
             (case lookup tumor_pccs main of
                Inl e \<Rightarrow> Inl e
              | Inr main_pcc \<Rightarrow>
                  if main_pcc < min_correlation self then Inr st
                  else if main \<notin> set tumor_positions then Inl (KeyError main)
                  else
                    (case network_node_size self main_pcc of
                       Inl e \<Rightarrow> Inl e
                     | Inr sz \<Rightarrow>
                         for_each (cross_edge_step self gene_id)
                           (add_node net
                              \<lparr>node_id = gene_id, node_shape = Diamond, node_size = sz + 2\<rparr>,
                            counts)
                           tumor_pccs))))"

definition create_network :: "visualizer \<Rightarrow> dataframe dict \<Rightarrow> error + plain_network \<times> visualizer" where
  "create_network self tumor_data =
     (let net0 = add_node \<lparr>directed = False, nodes = [], edges = []\<rparr>
                   \<lparr>node_id = ''GCH1'', node_shape = Dot, node_size = 30\<rparr>;
          all_genes = collect_genes tumor_data
      in case for_each (tumor_node_step tumor_data) (net0, [], gene_counts self)
                (tumor_types self) of
           Inl e \<Rightarrow> Inl e
         | Inr (net1, tumor_positions, counts1) \<Rightarrow>
             (case for_each (tumor_specific_step self tumor_data all_genes tumor_positions)
                     (net1, counts1) (tumor_types self) of
                Inl e \<Rightarrow> Inl e
              | Inr st2 \<Rightarrow>
                  (case for_each (cross_gene_step self tumor_positions) st2
                          (cross_tumor_genes all_genes) of
                     Inl e \<Rightarrow> Inl e
                   | Inr (net3, counts3) \<Rightarrow> Inr (net3, self\<lparr>gene_counts := counts3\<rparr>))))"

section \<open>\<^verbatim>\<open>BadSurvivalTreeVisualizer.create_survival_tree\<close>\<close>

definition nlargest :: "int \<Rightarrow> dataframe \<Rightarrow> dataframe" where
  \<comment> \<open>\<^verbatim>\<open>df.nlargest(n, 'PCC')\<close>: the first \<open>n\<close> rows in descending order of score, earlier
      rows first among equal scores (\<^verbatim>\<open>keep='first'\<close>); nothing for \<open>n \<le> 0\<close>\<close>
  "nlargest n df = take (nat n) (sort_key (\<lambda>r. - snd r) df)"

definition track_gene :: "string list dict \<Rightarrow> string \<Rightarrow> string \<Rightarrow> string list dict" where
  \<comment> \<open>\<^verbatim>\<open>if gene_symbol not in gene_tumors: gene_tumors[gene_symbol] = []\<close>, then
      \<^verbatim>\<open>gene_tumors[gene_symbol].append(tumor_type)\<close>\<close>
  "track_gene gene_tumors gene_symbol tumor_type =
     (let gene_tumors1 =
            (if gene_symbol \<notin> fst ` set gene_tumors then AList.update gene_symbol [] gene_tumors
             else gene_tumors)
      in case map_of gene_tumors1 gene_symbol of
           None \<Rightarrow> gene_tumors1
         | Some tumors \<Rightarrow> AList.update gene_symbol (tumors @ [tumor_type]) gene_tumors1)"

definition tree_gene_id :: "string \<Rightarrow> string \<Rightarrow> string" where
  \<comment> \<open>\<^verbatim>\<open>f"{gene_symbol}_{tumor_type}"\<close>\<close>
  "tree_gene_id gene_symbol tumor_type = gene_symbol @ ''_'' @ tumor_type"

definition tree_gene_step ::
  "visualizer \<Rightarrow> string \<Rightarrow> placed_network \<times> string list dict \<Rightarrow> row
     \<Rightarrow> error + placed_network \<times> string list dict" where
  \<comment> \<open>the body of \<^verbatim>\<open>for _, gene_row in top_genes.iterrows()\<close>\<close>
  "tree_gene_step self tumor_type st r =
     (case st of (net, gene_tumors) \<Rightarrow> case r of (gene_symbol, correlation) \<Rightarrow>
        (let gene_tumors1 = track_gene gene_tumors gene_symbol tumor_type;
             gene_id = tree_gene_id gene_symbol tumor_type
         in case size_scale self correlation of
              Inl e \<Rightarrow> Inl e
            | Inr scale \<Rightarrow>
                (case add_edge
                        (add_node net
                           \<lparr>node_id = gene_id, node_shape = Dot,
                            node_size = tree_node_size self scale,
                            node_position = None, node_fixed = False\<rparr>)
                        \<lparr>edge_from = tumor_type, edge_to = gene_id,
                         edge_width = tree_edge_width self scale\<rparr> of
                   Inl e \<Rightarrow> Inl e
                 | Inr net1 \<Rightarrow> Inr (net1, gene_tumors1))))"

definition tumor_node_position :: "nat \<Rightarrow> nat \<Rightarrow> real \<times> real" where
  \<comment> \<open>\<^verbatim>\<open>angle = 2 * np.pi * idx / len(tumor_data)\<close>, \<^verbatim>\<open>radius = 250\<close>,
      \<^verbatim>\<open>x_pos = radius * np.cos(angle)\<close>, \<^verbatim>\<open>y_pos = radius * np.sin(angle)\<close>; the loop
      body runs only when there is a table, so the divisor is not 0\<close>
  "tumor_node_position idx n =
     (let angle = 2 * pi * real idx / real n
      in (250 * cos angle, 250 * sin angle))"

definition tree_tumor_step ::
  "visualizer \<Rightarrow> nat \<Rightarrow> placed_network \<times> string list dict \<times> nat dict
     \<Rightarrow> nat \<times> string \<times> dataframe
     \<Rightarrow> error + placed_network \<times> string list dict \<times> nat dict" where
  \<comment> \<open>the body of \<^verbatim>\<open>for idx, (tumor_type, df) in enumerate(tumor_data.items())\<close>, \<open>n\<close>
      being \<^verbatim>\<open>len(tumor_data)\<close>; \<^verbatim>\<open>self.tumor_node_size\<close> is 30\<close>
  "tree_tumor_step self n st item =
     (case st of (net, gene_tumors, counts) \<Rightarrow> case item of (idx, tumor_type, df) \<Rightarrow>
        if df = [] then Inr st
        else
          (case add_edge
                  (add_node net
                     \<lparr>node_id = tumor_type, node_shape = Box, node_size = 30,
                      node_position = Some (tumor_node_position idx n), node_fixed = True\<rparr>)
                  \<lparr>edge_from = ''Poor Prognosis'', edge_to = tumor_type, edge_width = 3\<rparr> of
             Inl e \<Rightarrow> Inl e
           | Inr net1 \<Rightarrow>
               (let top_genes = nlargest (max_genes_per_tumor self) df
                in case for_each (tree_gene_step self tumor_type) (net1, gene_tumors)
                          top_genes of
                     Inl e \<Rightarrow> Inl e
                   | Inr (net2, gene_tumors2) \<Rightarrow>
                       Inr (net2, gene_tumors2,
                            AList.update tumor_type (length top_genes) counts))))"

definition mark_instance :: "string \<Rightarrow> placed_network \<Rightarrow> string \<Rightarrow> error + placed_network" where
  \<comment> \<open>the body of \<^verbatim>\<open>for tumor_type in tumors\<close>: diamond shape, size times 1.5\<close>
  "mark_instance gene net tumor_type =
     (case update_node net (tree_gene_id gene tumor_type) (\<lambda>n. n\<lparr>node_shape := Diamond\<rparr>) of
        Inl e \<Rightarrow> Inl e
      | Inr net1 \<Rightarrow>
          update_node net1 (tree_gene_id gene tumor_type)
            (\<lambda>n. n\<lparr>node_size := node_size n * 1.5\<rparr>))"

definition is_cross_tumor :: "string list \<Rightarrow> bool" where
  \<comment> \<open>\<^verbatim>\<open>if len(tumors) > 1\<close>\<close>
  "is_cross_tumor tumors = (length tumors > 1)"

definition mark_cross_tumor :: "placed_network \<Rightarrow> string \<times> string list \<Rightarrow> error + placed_network" where
  \<comment> \<open>the body of \<^verbatim>\<open>for gene, tumors in gene_tumors.items()\<close>\<close>
  "mark_cross_tumor net item =
     (case item of (gene, tumors) \<Rightarrow>
        if is_cross_tumor tumors then for_each (mark_instance gene) net tumors else Inr net)"

definition survival_tree_pass ::
  "visualizer \<Rightarrow> dataframe dict \<Rightarrow> error + placed_network \<times> string list dict \<times> nat dict" where
  \<comment> \<open>the central node and the first loop of \<^verbatim>\<open>create_survival_tree\<close>;
      \<^verbatim>\<open>self.central_node_size\<close> is 45\<close>
  "survival_tree_pass self tumor_data =
     for_each (tree_tumor_step self (length tumor_data))
       (add_node \<lparr>directed = True, nodes = [], edges = []\<rparr>
          \<lparr>node_id = ''Poor Prognosis'', node_shape = Ellipse, node_size = 45,
           node_position = Some (0, 0), node_fixed = True\<rparr>,
        [], gene_counts self)
       (List.enumerate 0 tumor_data)"

definition create_survival_tree ::
  "visualizer \<Rightarrow> dataframe dict \<Rightarrow> error + placed_network \<times> visualizer" where
  "create_survival_tree self tumor_data =
     (case survival_tree_pass self tumor_data of
        Inl e \<Rightarrow> Inl e
      | Inr (net1, gene_tumors, counts) \<Rightarrow>
          (case for_each mark_cross_tumor net1 gene_tumors of
             Inl e \<Rightarrow> Inl e
           | Inr net2 \<Rightarrow> Inr (net2, self\<lparr>gene_counts := counts\<rparr>)))"

section \<open>Notions used in the statements and proofs\<close>

text \<open>
  None of the following is part of the programs: they name the inputs used as examples and
  the invariants the proofs carry through the loops.
\<close>

definition example_tables :: "dataframe dict" where
  \<comment> \<open>the tables of the specification's worked example\<close>
  "example_tables =
     [(''A'', [(''g1'', 0.9), (''g2'', 0.6)]), (''B'', [(''g1'', 0.7), (''g3'', 0.55)])]"

definition duplicate_rows :: "dataframe dict" where
  \<comment> \<open>one table in which a gene symbol occurs twice\<close>
  "duplicate_rows = [(''A'', [(''g1'', 0.9), (''g1'', 0.6)])]"

definition example_files :: "string \<Rightarrow> csv_file" where
  \<comment> \<open>a data directory: two readable files, one without a usable \<^verbatim>\<open>PCC\<close> column, and
      nothing else\<close>
  "example_files path =
     (if path = ''data/A.csv'' then Table [(''g1'', 0.9), (''g2'', 0.6), (''g4'', 0.3)]
      else if path = ''data/B.csv'' then Table [(''g1'', 0.7), (''g3'', 0.55)]
      else if path = ''data/C.csv'' then FilterFails
      else ReadFails)"

definition tumors_of :: "real dict dict \<Rightarrow> string \<Rightarrow> real dict" where
  \<comment> \<open>the inner dict of a gene, empty where the gene is absent\<close>
  "tumors_of all_genes gene = (case map_of all_genes gene of None \<Rightarrow> [] | Some tumors \<Rightarrow> tumors)"

definition well_formed :: "real dict dict \<Rightarrow> bool" where
  \<comment> \<open>keys are unique at both levels and no inner dict is empty\<close>
  "well_formed all_genes =
     (distinct (map fst all_genes)
      \<and> list_all (\<lambda>item. distinct (map fst (snd item)) \<and> snd item \<noteq> []) all_genes)"

definition loaded_table ::
  "real \<Rightarrow> (string \<Rightarrow> csv_file) \<Rightarrow> string \<Rightarrow> string \<Rightarrow> dataframe option" where
  \<comment> \<open>the filtered table of one tumor type, \<open>None\<close> when its file fails\<close>
  "loaded_table threshold fs data_dir tumor_type =
     (case fs (file_path data_dir tumor_type) of
        Table df \<Rightarrow> Some (filter (\<lambda>r. snd r \<ge> threshold) df)
      | _ \<Rightarrow> None)"

definition rows_at_least :: "real \<Rightarrow> dataframe dict \<Rightarrow> bool" where
  "rows_at_least m tumor_data =
     list_all (\<lambda>item. list_all (\<lambda>r. m \<le> snd r) (snd item)) tumor_data"

definition scores_at_least :: "real \<Rightarrow> real dict dict \<Rightarrow> bool" where
  "scores_at_least m all_genes =
     list_all (\<lambda>item. list_all (\<lambda>x. m \<le> snd x) (snd item)) all_genes"



definition grows :: "plain_network \<Rightarrow> plain_network \<Rightarrow> bool" where
  "grows net net1 =
     (set (node_ids net) \<subseteq> set (node_ids net1) \<and> set (edges net) \<subseteq> set (edges net1))"

definition attached :: "string \<Rightarrow> real dict \<Rightarrow> plain_network \<Rightarrow> bool" where
  \<comment> \<open>the gene has its node and is joined to every tumor of its inner dict\<close>
  "attached gene_id tumor_pccs net =
     (gene_id \<in> set (node_ids net)
      \<and> list_all (\<lambda>item. edge_exists net (fst item) gene_id) tumor_pccs)"

definition ready :: "string set \<Rightarrow> plain_network \<times> nat dict \<Rightarrow> bool" where
  \<comment> \<open>every tumor of \<open>K\<close> has its node and its counter\<close>
  "ready K st = (K \<subseteq> set (node_ids (fst st)) \<and> K \<subseteq> fst ` set (snd st))"

section \<open>Properties of the score mapping\<close>

lemma spec_t_unclamped:
  assumes "lo < 1" "lo \<le> s" "s \<le> 1"
  shows "spec_t s lo 1 = (s - lo) / (1 - lo)"
proof -
  have "0 \<le> (s - lo) / (1 - lo)" using assms by simp
  moreover have "(s - lo) / (1 - lo) \<le> 1" using assms by simp
  ultimately show ?thesis by (simp add: spec_t_def)
qed

lemma spec_t_range: "0 \<le> spec_t s lo hi \<and> spec_t s lo hi \<le> 1"
  by (simp add: spec_t_def)

lemma spec_interpolate_bounds:
  assumes "fst out \<le> snd out" "0 \<le> t" "t \<le> 1"
  shows "fst out \<le> spec_interpolate out t \<and> spec_interpolate out t \<le> snd out"
proof -
  have d: "0 \<le> snd out - fst out" using assms by simp
  have "0 \<le> t * (snd out - fst out)" using assms d by simp
  moreover have "t * (snd out - fst out) \<le> 1 * (snd out - fst out)"
    using assms d by (intro mult_right_mono) auto
  ultimately show ?thesis by (simp add: spec_interpolate_def)
qed

text \<open>
  Claim C2. The upper end of the score range is the constant 1 in both programs. For a
  threshold below 1, an ordered size range and a score \<open>s\<close> between the threshold and 1,
  the node size the code computes is \<open>sizeMin + t * (sizeMax - sizeMin)\<close> with
  \<open>t = (s - minScore) / (1 - minScore)\<close> clamped to \<open>[0, 1]\<close> (in the network program
  directly, in the tree program through \<open>size_scale\<close>), and it lies between \<open>sizeMin\<close>
  and \<open>sizeMax\<close>.
\<close>

theorem node_size_interpolates_within_range:
  assumes "min_correlation self < 1"
    and "fst (node_size_range self) \<le> snd (node_size_range self)"
    and "min_correlation self \<le> s" and "s \<le> 1"
  shows "network_node_size self s
           = Inr (spec_interpolate (node_size_range self) (spec_t s (min_correlation self) 1))
       \<and> size_scale self s = Inr (spec_t s (min_correlation self) 1)
       \<and> tree_node_size self (spec_t s (min_correlation self) 1)
           = spec_interpolate (node_size_range self) (spec_t s (min_correlation self) 1)
       \<and> fst (node_size_range self)
           \<le> spec_interpolate (node_size_range self) (spec_t s (min_correlation self) 1)
       \<and> spec_interpolate (node_size_range self) (spec_t s (min_correlation self) 1)
           \<le> snd (node_size_range self)"
proof -
  let ?t = "spec_t s (min_correlation self) 1"
  have t: "?t = (s - min_correlation self) / (1 - min_correlation self)"
    using assms by (simp add: spec_t_unclamped)
  have nz: "1 - min_correlation self \<noteq> 0" using assms by simp
  have a: "network_node_size self s = Inr (spec_interpolate (node_size_range self) ?t)"
    using nz by (simp add: network_node_size_def py_div_def spec_interpolate_def t
        split: prod.splits)
  have b: "size_scale self s = Inr ?t"
    using nz by (simp add: size_scale_def py_div_def t)
  have c: "tree_node_size self ?t = spec_interpolate (node_size_range self) ?t"
    by (simp add: tree_node_size_def spec_interpolate_def)
  have d: "fst (node_size_range self) \<le> spec_interpolate (node_size_range self) ?t
       \<and> spec_interpolate (node_size_range self) ?t \<le> snd (node_size_range self)"
    using spec_interpolate_bounds [OF assms(2)] spec_t_range by blast
  show ?thesis using a b c d by simp
qed

theorem node_size_interpolates_within_range_witness:
  "min_correlation network_init < 1
   \<and> fst (node_size_range network_init) \<le> snd (node_size_range network_init)
   \<and> min_correlation network_init \<le> 0.9 \<and> (0.9::real) \<le> 1
   \<and> network_node_size network_init 0.9 = Inr 8.6
   \<and> size_scale tree_init 0.9 = Inr 0.8
   \<and> tree_node_size tree_init 0.8 = 14.4"
proof -
  have h: "min_correlation network_init < 1"
      "fst (node_size_range network_init) \<le> snd (node_size_range network_init)"
      "min_correlation network_init \<le> 0.9" "(0.9::real) \<le> 1"
    by (simp_all add: network_init_def)
  have t: "spec_t 0.9 0.5 1 = 0.8" by (simp add: spec_t_def)
  show ?thesis
    using node_size_interpolates_within_range [OF h] h
    by (simp add: network_init_def tree_init_def spec_interpolate_def t size_scale_def
        py_div_def tree_node_size_def)
qed

text \<open>
  Claim C3 (edge width uses the same interpolation and the same \<open>t\<close> as node size). The
  tree program does: one \<open>size_scale\<close> feeds both \<open>tree_node_size\<close> and
  \<open>tree_edge_width\<close>. The network program does not: its width multiplies by
  \<open>pcc - min_correlation\<close> without the division by \<open>1 - min_correlation\<close> that its size
  has. With the settings of \<^verbatim>\<open>__init__\<close> and score 1 the node gets the top of its range,
  the edge gets width 0.9 where the interpolation gives 1.5.
\<close>

theorem network_edge_width_misses_interpolation:
  "network_edge_width network_init 1 = 0.9
   \<and> spec_interpolate (edge_width_range network_init)
         (spec_t 1 (min_correlation network_init) 1) = 1.5
   \<and> network_node_size network_init 1
       = Inr (spec_interpolate (node_size_range network_init)
               (spec_t 1 (min_correlation network_init) 1))
   \<and> tree_edge_width self t = spec_interpolate (edge_width_range self) t
   \<and> tree_node_size self t = spec_interpolate (node_size_range self) t"
  by (simp add: network_edge_width_def network_init_def spec_interpolate_def spec_t_def
      network_node_size_def py_div_def tree_edge_width_def tree_node_size_def)

text \<open>
  Claim C6, as stated (a degenerate score range does not divide by zero and maps to
  \<open>sizeMax\<close>), fails: the upper end of the range is the constant 1, so the range is
  degenerate exactly for threshold 1, and there the division raises. A threshold of 0.7
  with score 0.7 is not degenerate in the code and gives \<open>sizeMin\<close>, not \<open>sizeMax\<close>.
\<close>

theorem degenerate_range_counterexample:
  "network_node_size (network_init\<lparr>min_correlation := 1\<rparr>) 1 = Inl ZeroDivisionError
   \<and> size_scale (tree_init\<lparr>min_correlation := 1\<rparr>) 1 = Inl ZeroDivisionError
   \<and> network_node_size (network_init\<lparr>min_correlation := 0.7\<rparr>) 0.7 = Inr 3
   \<and> snd (node_size_range (network_init\<lparr>min_correlation := 0.7\<rparr>)) = 10"
  by (simp add: network_node_size_def size_scale_def py_div_def network_init_def tree_init_def)

text \<open>
  Claim C6, amended. The size computation raises \<^verbatim>\<open>ZeroDivisionError\<close> exactly when the
  threshold equals 1, for every score; for any other threshold the score 1 (the upper end
  of the range) maps to \<open>sizeMax\<close> in both programs.
\<close>

theorem degenerate_range_raises:
  "(network_node_size self s = Inl ZeroDivisionError) = (min_correlation self = 1)
   \<and> (size_scale self s = Inl ZeroDivisionError) = (min_correlation self = 1)
   \<and> network_node_size self 1
       = (if min_correlation self = 1 then Inl ZeroDivisionError
          else Inr (snd (node_size_range self)))
   \<and> size_scale self 1 = (if min_correlation self = 1 then Inl ZeroDivisionError else Inr 1)
   \<and> tree_node_size self 1 = snd (node_size_range self)"
  by (auto simp add: network_node_size_def size_scale_def py_div_def tree_node_size_def
      split: prod.splits)

section \<open>The aggregate of \<^verbatim>\<open>create_network\<close>\<close>

lemma set_update_cases:
  "x \<in> set (AList.update k v al) \<Longrightarrow> x = (k, v) \<or> x \<in> set al"
  by (induction al) (auto split: if_splits)

lemma record_gene_eq:
  "record_gene c ag (g, p) = AList.update g (AList.update c p (tumors_of ag g)) ag"
proof (cases "map_of ag g")
  case None
  then have "g \<notin> fst ` set ag" by (simp add: map_of_eq_None_iff)
  then show ?thesis using None
    by (simp add: record_gene_def tumors_of_def AList.update_conv')
next
  case (Some d)
  then have "g \<in> fst ` set ag" by (metis map_of_eq_None_iff option.distinct(1))
  then show ?thesis using Some
    by (simp add: record_gene_def tumors_of_def)
qed

lemma tumors_of_record_gene:
  "tumors_of (record_gene c ag (g, p)) g' =
     (if g' = g then AList.update c p (tumors_of ag g) else tumors_of ag g')"
  by (simp add: record_gene_eq tumors_of_def AList.update_conv')

lemma membership_tumors_of: "membership ag g c = map_of (tumors_of ag g) c"
  by (simp add: membership_def tumors_of_def split: option.splits)

lemma membership_record_gene:
  "membership (record_gene c ag (g, p)) g' c' =
     (if g' = g \<and> c' = c then Some p else membership ag g' c')"
  by (simp add: membership_tumors_of tumors_of_record_gene AList.update_conv')

lemma well_formed_record_gene:
  assumes "well_formed ag"
  shows "well_formed (record_gene c ag r)"
proof -
  obtain g p where r: "r = (g, p)" by (cases r)
  have d: "distinct (map fst (tumors_of ag g))"
  proof (cases "map_of ag g")
    case None then show ?thesis by (simp add: tumors_of_def)
  next
    case (Some d)
    then have "(g, d) \<in> set ag" by (rule map_of_SomeD)
    then show ?thesis using assms Some
      by (auto simp: well_formed_def tumors_of_def list_all_iff)
  qed
  have new: "distinct (map fst (AList.update c p (tumors_of ag g)))"
    using d by (rule AList.distinct_update)
  have "\<And>x. x \<in> set (AList.update g (AList.update c p (tumors_of ag g)) ag)
          \<Longrightarrow> distinct (map fst (snd x)) \<and> snd x \<noteq> []"
    using assms new by (auto dest!: set_update_cases simp: well_formed_def list_all_iff)
  then show ?thesis using assms
    by (simp add: r record_gene_eq well_formed_def list_all_iff AList.distinct_update)
qed

lemma well_formed_foldl_record:
  "well_formed ag \<Longrightarrow> well_formed (foldl (record_gene c) ag df)"
  by (induction df arbitrary: ag) (simp_all add: well_formed_record_gene)

lemma collect_table_pair: "collect_table ag (c, df) = foldl (record_gene c) ag df"
  by (simp add: collect_table_def)

lemma well_formed_foldl_table:
  "well_formed ag \<Longrightarrow> well_formed (foldl collect_table ag td)"
  by (induction td arbitrary: ag) (auto simp: collect_table_pair well_formed_foldl_record)

lemma well_formed_collect_genes: "well_formed (collect_genes td)"
proof -
  have "well_formed []" by (simp add: well_formed_def)
  then show ?thesis by (simp add: collect_genes_def well_formed_foldl_table)
qed

lemma membership_foldl_record:
  "membership (foldl (record_gene c) ag df) g c' =
     (if c' = c \<and> filter (\<lambda>r. fst r = g) df \<noteq> []
      then Some (snd (last (filter (\<lambda>r. fst r = g) df)))
      else membership ag g c')"
proof (induction df arbitrary: ag)
  case Nil
  then show ?case by simp
next
  case (Cons r df)
  obtain g' p where r: "r = (g', p)" by (cases r)
  show ?case
    by (auto simp add: Cons.IH r membership_record_gene)
qed

lemma membership_foldl_table_other:
  "c \<notin> fst ` set td \<Longrightarrow> membership (foldl collect_table ag td) g c = membership ag g c"
proof (induction td arbitrary: ag)
  case Nil
  then show ?case by simp
next
  case (Cons item td)
  obtain c' df where item: "item = (c', df)" by (cases item)
  from Cons.prems have "c \<noteq> c'" "c \<notin> fst ` set td" by (auto simp: item)
  then show ?case
    by (simp add: Cons.IH item collect_table_pair membership_foldl_record)
qed

lemma membership_collect_genes:
  assumes "distinct (map fst td)"
  shows "membership (collect_genes td) g c =
     (case map_of td c of
        None \<Rightarrow> None
      | Some df \<Rightarrow> (if filter (\<lambda>r. fst r = g) df = [] then None
                    else Some (snd (last (filter (\<lambda>r. fst r = g) df)))))"
proof -
  have gen: "distinct (map fst td) \<Longrightarrow> membership (foldl collect_table ag td) g c =
     (case map_of td c of
        None \<Rightarrow> membership ag g c
      | Some df \<Rightarrow> (if filter (\<lambda>r. fst r = g) df = [] then membership ag g c
                    else Some (snd (last (filter (\<lambda>r. fst r = g) df)))))" for ag
  proof (induction td arbitrary: ag)
    case Nil
    then show ?case by simp
  next
    case (Cons item td)
    obtain c' df where item: "item = (c', df)" by (cases item)
    from Cons.prems have dist: "distinct (map fst td)" and notin: "c' \<notin> fst ` set td"
      by (auto simp: item)
    show ?case
    proof (cases "c = c'")
      case True
      then have "map_of td c = None" using notin by (simp add: map_of_eq_None_iff)
      then show ?thesis using True notin
        by (simp add: item collect_table_pair membership_foldl_table_other
            membership_foldl_record)
    next
      case False
      then show ?thesis
        by (simp add: item Cons.IH [OF dist] collect_table_pair membership_foldl_record
            split: option.splits)
    qed
  qed
  have empty: "membership [] g c = None" by (simp add: membership_def)
  show ?thesis using gen [OF assms, of "[]"]
    by (simp add: collect_genes_def empty split: option.splits)
qed

lemma keys_foldl_record:
  "map fst (tumors_of (foldl (record_gene c) ag df) g) =
     (if g \<in> fst ` set df \<and> c \<notin> set (map fst (tumors_of ag g))
      then map fst (tumors_of ag g) @ [c] else map fst (tumors_of ag g))"
proof (induction df arbitrary: ag)
  case Nil
  then show ?case by simp
next
  case (Cons r df)
  obtain g' p where r: "r = (g', p)" by (cases r)
  show ?case
    by (auto simp add: Cons.IH r tumors_of_record_gene AList.update_keys AList.dom_update)
qed

lemma keys_foldl_table:
  assumes "distinct (map fst td)"
    and "set (map fst td) \<inter> set (map fst (tumors_of ag g)) = {}"
  shows "map fst (tumors_of (foldl collect_table ag td) g) =
     map fst (tumors_of ag g) @ map fst (filter (\<lambda>item. g \<in> fst ` set (snd item)) td)"
  using assms
proof (induction td arbitrary: ag)
  case Nil
  then show ?case by simp
next
  case (Cons item td)
  obtain c df where item: "item = (c, df)" by (cases item)
  let ?ag = "foldl (record_gene c) ag df"
  have k: "map fst (tumors_of ?ag g) =
     (if g \<in> fst ` set df then map fst (tumors_of ag g) @ [c] else map fst (tumors_of ag g))"
    using Cons.prems by (auto simp: keys_foldl_record item)
  have d: "distinct (map fst td)" using Cons.prems by simp
  have disj: "set (map fst td) \<inter> set (map fst (tumors_of ?ag g)) = {}"
    using Cons.prems by (auto simp: k item)
  show ?case
    using Cons.IH [OF d disj] by (simp add: item collect_table_pair k)
qed

lemma keys_collect_genes:
  assumes "distinct (map fst td)"
  shows "map fst (tumors_of (collect_genes td) g) =
     map fst (filter (\<lambda>item. g \<in> fst ` set (snd item)) td)"
proof -
  have "tumors_of [] g = []" by (simp add: tumors_of_def)
  then show ?thesis
    using keys_foldl_table [OF assms, of "[]" g] by (simp add: collect_genes_def)
qed

lemma py_max_item_first_maximum:
  assumes "\<forall>x\<in>set pre. snd x < snd best" and "\<forall>x\<in>set mid. snd x \<le> snd best"
  shows "\<exists>before after. pre @ best # mid @ xs = before @ py_max_item best xs # after
           \<and> (\<forall>x\<in>set before. snd x < snd (py_max_item best xs))
           \<and> (\<forall>x\<in>set after. snd x \<le> snd (py_max_item best xs))"
  using assms
proof (induction xs arbitrary: best pre mid)
  case Nil
  then show ?case by auto
next
  case (Cons x xs)
  show ?case
  proof (cases "snd best < snd x")
    case True
    have a: "\<forall>y\<in>set (pre @ best # mid). snd y < snd x"
      using Cons.prems True by fastforce
    have b: "\<forall>y\<in>set []. snd y \<le> snd x" by simp
    from Cons.IH [OF a b] show ?thesis using True by simp
  next
    case False
    have b: "\<forall>y\<in>set (mid @ [x]). snd y \<le> snd best"
      using Cons.prems False by auto
    from Cons.IH [OF Cons.prems(1) b] show ?thesis using False by simp
  qed
qed

lemma cross_tumor_entry:
  assumes "(gene, tumor_pccs) \<in> set (cross_tumor_genes (collect_genes tumor_data))"
  shows "tumors_of (collect_genes tumor_data) gene = tumor_pccs"
    and "distinct (map fst tumor_pccs)" and "1 < length tumor_pccs"
proof -
  have wf: "well_formed (collect_genes tumor_data)" by (rule well_formed_collect_genes)
  from assms have mem: "(gene, tumor_pccs) \<in> set (collect_genes tumor_data)"
    and len: "1 < length tumor_pccs"
    by (auto simp: cross_tumor_genes_def)
  from wf mem have "map_of (collect_genes tumor_data) gene = Some tumor_pccs"
    by (simp add: well_formed_def)
  then show "tumors_of (collect_genes tumor_data) gene = tumor_pccs"
    by (simp add: tumors_of_def)
  from wf mem show "distinct (map fst tumor_pccs)"
    by (auto simp: well_formed_def list_all_iff)
  from len show "1 < length tumor_pccs" .
qed

lemma collect_example:
  "collect_genes example_tables =
     [(''g1'', [(''A'', 0.9), (''B'', 0.7)]), (''g2'', [(''A'', 0.6)]), (''g3'', [(''B'', 0.55)])]"
  by (simp add: example_tables_def collect_genes_def collect_table_def record_gene_def)

lemma membership_present:
  assumes "distinct (map fst td)"
  shows "(membership (collect_genes td) g t \<noteq> None)
         = (\<exists>df. map_of td t = Some df \<and> g \<in> fst ` set df)"
proof -
  have "(filter (\<lambda>r. fst r = g) df \<noteq> []) = (g \<in> fst ` set df)" for df :: dataframe
    by (auto simp: filter_empty_conv)
  then show ?thesis
    by (auto simp: membership_collect_genes [OF assms] split: option.splits)
qed

lemma cross_tumor_iff_card:
  "(g \<in> fst ` set (cross_tumor_genes (collect_genes td)))
     = (1 < card {t. membership (collect_genes td) g t \<noteq> None})"
proof -
  let ?ag = "collect_genes td"
  have wf: "well_formed ?ag" by (rule well_formed_collect_genes)
  have dom: "{t. membership ?ag g t \<noteq> None} = set (map fst (tumors_of ?ag g))"
    by (auto simp: membership_tumors_of map_of_eq_None_iff)
  have dist: "distinct (map fst (tumors_of ?ag g))"
  proof (cases "map_of ?ag g")
    case None then show ?thesis by (simp add: tumors_of_def)
  next
    case (Some d)
    then have "(g, d) \<in> set ?ag" by (rule map_of_SomeD)
    then show ?thesis using wf Some by (auto simp: well_formed_def tumors_of_def list_all_iff)
  qed
  have card: "card {t. membership ?ag g t \<noteq> None} = length (tumors_of ?ag g)"
    unfolding dom using distinct_card [OF dist] by simp
  show ?thesis
  proof
    assume "g \<in> fst ` set (cross_tumor_genes ?ag)"
    then obtain d where "(g, d) \<in> set (cross_tumor_genes ?ag)" by auto
    from cross_tumor_entry(1,3) [OF this] have "1 < length (tumors_of ?ag g)" by simp
    then show "1 < card {t. membership ?ag g t \<noteq> None}" by (simp only: card)
  next
    assume "1 < card {t. membership ?ag g t \<noteq> None}"
    then have len: "1 < length (tumors_of ?ag g)" by (simp only: card)
    then obtain d where m: "map_of ?ag g = Some d" and d: "tumors_of ?ag g = d"
      by (cases "map_of ?ag g") (auto simp: tumors_of_def)
    from m have "(g, d) \<in> set ?ag" by (rule map_of_SomeD)
    then have "(g, d) \<in> set (cross_tumor_genes ?ag)" using len d
      by (simp add: cross_tumor_genes_def)
    then show "g \<in> fst ` set (cross_tumor_genes ?ag)" by force
  qed
qed

section \<open>The loader and the threshold\<close>

lemma load_one_data:
  "map_of (fst (load_one m fs dir st t)) t' =
     (if t' = t \<and> loaded_table m fs dir t \<noteq> None then loaded_table m fs dir t
      else map_of (fst st) t')"
  by (cases st) (auto simp: load_one_def loaded_table_def AList.update_conv' Let_def
      split: csv_file.splits)

lemma load_one_errors:
  "LogError t' \<in> set (snd (snd (load_one m fs dir st t))) \<longleftrightarrow>
     (t' = t \<and> loaded_table m fs dir t = None) \<or> LogError t' \<in> set (snd (snd st))"
  by (cases st) (auto simp: load_one_def loaded_table_def Let_def split: csv_file.splits)

lemma foldl_load_one_data:
  "map_of (fst (foldl (load_one m fs dir) st ts)) t =
     (if t \<in> set ts \<and> loaded_table m fs dir t \<noteq> None then loaded_table m fs dir t
      else map_of (fst st) t)"
proof (induction ts arbitrary: st)
  case Nil
  then show ?case by simp
next
  case (Cons a ts)
  show ?case by (auto simp: Cons.IH load_one_data)
qed

lemma foldl_load_one_errors:
  "LogError t \<in> set (snd (snd (foldl (load_one m fs dir) st ts))) \<longleftrightarrow>
     (t \<in> set ts \<and> loaded_table m fs dir t = None) \<or> LogError t \<in> set (snd (snd st))"
proof (induction ts arbitrary: st)
  case Nil
  then show ?case by simp
next
  case (Cons a ts)
  show ?case by (auto simp: Cons.IH load_one_errors)
qed

lemma load_all_data_fst:
  "fst (load_all_data self fs dir ts) = fst (foldl (load_one (min_correlation self) fs dir) ([], gene_counts self, []) ts)"
  and load_all_data_log:
  "snd (snd (load_all_data self fs dir ts)) = snd (snd (foldl (load_one (min_correlation self) fs dir) ([], gene_counts self, []) ts))"
  by (simp_all add: load_all_data_def split: prod.splits)

lemma distinct_load_one: "distinct (map fst (fst st)) \<Longrightarrow> distinct (map fst (fst (load_one m fs dir st t)))"
  by (cases st) (auto simp: load_one_def Let_def AList.distinct_update split: csv_file.splits)

lemma distinct_foldl_load_one:
  "distinct (map fst (fst st)) \<Longrightarrow> distinct (map fst (fst (foldl (load_one m fs dir) st ts)))"
  by (induction ts arbitrary: st) (simp_all add: distinct_load_one)

lemma distinct_load_all_data: "distinct (map fst (fst (load_all_data self fs dir ts)))"
  by (simp add: load_all_data_fst distinct_foldl_load_one)

lemma rows_at_least_load_one:
  "rows_at_least m (fst st) \<Longrightarrow> rows_at_least m (fst (load_one m fs dir st t))"
  by (cases st)
    (auto simp: load_one_def Let_def rows_at_least_def list_all_iff
      dest!: set_update_cases split: csv_file.splits)

lemma rows_at_least_foldl_load_one:
  "rows_at_least m (fst st) \<Longrightarrow> rows_at_least m (fst (foldl (load_one m fs dir) st ts))"
  by (induction ts arbitrary: st) (simp_all add: rows_at_least_load_one)

lemma rows_at_least_load_all_data:
  "rows_at_least (min_correlation self) (fst (load_all_data self fs dir ts))"
proof -
  have "rows_at_least (min_correlation self) (fst (([], gene_counts self, []) :: dataframe dict \<times> nat dict \<times> log_entry list))"
    by (simp add: rows_at_least_def)
  then show ?thesis by (simp only: load_all_data_fst rows_at_least_foldl_load_one)
qed

lemma tumors_of_in_set:
  "x \<in> set (tumors_of ag g) \<Longrightarrow> \<exists>d. (g, d) \<in> set ag \<and> x \<in> set d"
proof (cases "map_of ag g")
  case None
  assume "x \<in> set (tumors_of ag g)"
  then show ?thesis using None by (simp add: tumors_of_def)
next
  case (Some d)
  assume "x \<in> set (tumors_of ag g)"
  then have "x \<in> set d" using Some by (simp add: tumors_of_def)
  moreover have "(g, d) \<in> set ag" using Some by (rule map_of_SomeD)
  ultimately show ?thesis by blast
qed

lemma scores_at_least_record_gene:
  assumes "scores_at_least m ag" "m \<le> snd r"
  shows "scores_at_least m (record_gene c ag r)"
proof -
  obtain g p where r: "r = (g, p)" by (cases r)
  have old: "\<And>x. x \<in> set (tumors_of ag g) \<Longrightarrow> m \<le> snd x"
    using assms(1) by (fastforce simp: scores_at_least_def list_all_iff dest!: tumors_of_in_set)
  have new: "\<And>x. x \<in> set (AList.update c p (tumors_of ag g)) \<Longrightarrow> m \<le> snd x"
    using old assms(2) r by (auto dest!: set_update_cases)
  show ?thesis
    using assms(1) new
    by (auto simp: r record_gene_eq scores_at_least_def list_all_iff dest!: set_update_cases)
qed

lemma scores_at_least_foldl_record:
  "scores_at_least m ag \<Longrightarrow> list_all (\<lambda>r. m \<le> snd r) df
     \<Longrightarrow> scores_at_least m (foldl (record_gene c) ag df)"
  by (induction df arbitrary: ag) (simp_all add: scores_at_least_record_gene)

lemma scores_at_least_foldl_table:
  "scores_at_least m ag \<Longrightarrow> rows_at_least m td
     \<Longrightarrow> scores_at_least m (foldl collect_table ag td)"
proof (induction td arbitrary: ag)
  case Nil
  then show ?case by simp
next
  case (Cons item td)
  obtain c df where item: "item = (c, df)" by (cases item)
  from Cons.prems have "list_all (\<lambda>r. m \<le> snd r) df" "rows_at_least m td"
    by (simp_all add: rows_at_least_def item)
  then show ?case
    using Cons.prems(1) by (simp add: item collect_table_pair Cons.IH scores_at_least_foldl_record)
qed

lemma scores_at_least_collect_genes:
  "rows_at_least m td \<Longrightarrow> scores_at_least m (collect_genes td)"
proof -
  assume a: "rows_at_least m td"
  have "scores_at_least m []" by (simp add: scores_at_least_def)
  then show ?thesis using a by (simp add: collect_genes_def scores_at_least_foldl_table)
qed

lemma py_max_item_in_set: "py_max_item best xs \<in> set (best # xs)"
  by (induction xs arbitrary: best) (simp, force)

section \<open>Loops that build the network\<close>

lemma for_each_invariant:
  assumes "for_each body s xs = Inr s'" and "I s"
    and "\<And>s x s1. x \<in> set xs \<Longrightarrow> I s \<Longrightarrow> body s x = Inr s1 \<Longrightarrow> I s1"
  shows "I s'"
  using assms
proof (induction xs arbitrary: s)
  case Nil
  then show ?case by simp
next
  case (Cons x xs)
  from Cons.prems(1) obtain s1 where b: "body s x = Inr s1" and r: "for_each body s1 xs = Inr s'"
    by (auto split: sum.splits)
  have "I s1" by (rule Cons.prems(3) [OF _ Cons.prems(2) b]) simp
  then show ?case by (rule Cons.IH [OF r]) (rule Cons.prems(3), simp_all)
qed

lemma for_each_establishes:
  assumes "for_each body s xs = Inr s'" and "x \<in> set xs"
    and "\<And>s s1. body s x = Inr s1 \<Longrightarrow> Q s1"
    and "\<And>s y s1. Q s \<Longrightarrow> body s y = Inr s1 \<Longrightarrow> Q s1"
  shows "Q s'"
  using assms(1,2)
proof (induction xs arbitrary: s)
  case Nil
  then show ?case by simp
next
  case (Cons y xs)
  from Cons.prems(1) obtain s1 where b: "body s y = Inr s1" and r: "for_each body s1 xs = Inr s'"
    by (auto split: sum.splits)
  show ?case
  proof (cases "x \<in> set xs")
    case True
    then show ?thesis using Cons.IH [OF r] by simp
  next
    case False
    then have "y = x" using Cons.prems(2) by simp
    then have "Q s1" using b assms(3) by simp
    then show ?thesis by (rule for_each_invariant [where I = Q, OF r]) (rule assms(4))
  qed
qed


lemma node_ids_add_node:
  "set (node_ids (add_node net n)) = insert (node_id n) (set (node_ids net))"
  by (auto simp: add_node_def node_ids_def)

lemma edges_add_node: "edges (add_node net n) = edges net"
  by (simp add: add_node_def)

lemma add_edge_result:
  assumes "add_edge net e = Inr net1"
  shows "node_ids net1 = node_ids net"
    and "edges net1 = edges net \<or> edges net1 = edges net @ [e]"
  using assms by (auto simp: add_edge_def node_ids_def split: if_splits)


lemma tumor_node_step_establishes:
  assumes "tumor_node_step td st t = Inr st1" and "t \<in> fst ` set td"
  shows "t \<in> set (node_ids (fst st1)) \<and> t \<in> set (fst (snd st1))
         \<and> map_of (snd (snd st1)) t = Some 0"
proof -
  obtain net pos counts where st: "st = (net, pos, counts)" by (cases st)
  from assms obtain net1 where
    e: "add_edge (add_node net \<lparr>node_id = t, node_shape = Dot, node_size = 20\<rparr>)
          \<lparr>edge_from = ''GCH1'', edge_to = t, edge_width = 2\<rparr> = Inr net1"
    and r: "st1 = (net1, List.insert t pos, AList.update t 0 counts)"
    by (auto simp: tumor_node_step_def st split: sum.splits)
  from add_edge_result(1) [OF e] show ?thesis
    by (simp add: r node_ids_add_node AList.update_conv')
qed

lemma tumor_node_step_preserves:
  assumes "tumor_node_step td st y = Inr st1"
    and "t \<in> set (node_ids (fst st)) \<and> t \<in> set (fst (snd st))
         \<and> map_of (snd (snd st)) t = Some 0"
  shows "t \<in> set (node_ids (fst st1)) \<and> t \<in> set (fst (snd st1))
         \<and> map_of (snd (snd st1)) t = Some 0"
proof (cases "y \<in> fst ` set td")
  case False
  then show ?thesis using assms by (auto simp: tumor_node_step_def split: prod.splits)
next
  case True
  obtain net pos counts where st: "st = (net, pos, counts)" by (cases st)
  from assms(1) True obtain net1 where
    e: "add_edge (add_node net \<lparr>node_id = y, node_shape = Dot, node_size = 20\<rparr>)
          \<lparr>edge_from = ''GCH1'', edge_to = y, edge_width = 2\<rparr> = Inr net1"
    and r: "st1 = (net1, List.insert y pos, AList.update y 0 counts)"
    by (auto simp: tumor_node_step_def st split: sum.splits)
  from add_edge_result(1) [OF e] assms(2) show ?thesis
    by (simp add: r st node_ids_add_node AList.update_conv')
qed








lemmas tree_eval =
  create_survival_tree_def survival_tree_pass_def tree_tumor_step_def tree_gene_step_def
  nlargest_def track_gene_def tree_gene_id_def size_scale_def py_div_def add_node_def
  add_edge_def node_ids_def is_cross_tumor_def mark_cross_tumor_def mark_instance_def
  update_node_def tree_node_size_def tree_edge_width_def Let_def












lemma grows_refl: "grows net net"
  by (simp add: grows_def)

lemma grows_trans: "grows a b \<Longrightarrow> grows b c \<Longrightarrow> grows a c"
  by (auto simp: grows_def)

lemma grows_add_node: "grows net (add_node net n)"
  by (auto simp: grows_def node_ids_add_node edges_add_node)

lemma grows_add_edge: "add_edge net e = Inr net1 \<Longrightarrow> grows net net1"
  using add_edge_result [of net e net1] by (auto simp: grows_def)

lemma edge_exists_grows: "grows net net1 \<Longrightarrow> edge_exists net a b \<Longrightarrow> edge_exists net1 a b"
  by (auto simp: grows_def edge_exists_def list_ex_iff)

lemma attached_grows: "grows net net1 \<Longrightarrow> attached g d net \<Longrightarrow> attached g d net1"
  by (auto simp: attached_def list_all_iff intro: edge_exists_grows) (auto simp: grows_def)

lemma edge_exists_add_edge:
  "add_edge net e = Inr net1 \<Longrightarrow> edge_exists net1 (edge_from e) (edge_to e)"
  by (auto simp: add_edge_def edge_exists_def split: if_splits)

lemma cross_edge_step_grows:
  assumes "cross_edge_step self g st item = Inr st1"
  shows "grows (fst st) (fst st1)"
proof -
  obtain net counts where st: "st = (net, counts)" by (cases st)
  obtain y p where item: "item = (y, p)" by (cases item)
  show ?thesis
  proof (cases "p \<ge> min_correlation self")
    case False
    then show ?thesis using assms by (simp add: cross_edge_step_def st item grows_refl)
  next
    case True
    from assms True obtain net1 counts1 where
      e: "add_edge net \<lparr>edge_from = y, edge_to = g, edge_width = network_edge_width self p\<rparr>
            = Inr net1"
      and s1: "st1 = (net1, counts1)"
      by (auto simp: cross_edge_step_def st item split: sum.splits)
    from grows_add_edge [OF e] show ?thesis by (simp add: st s1)
  qed
qed

lemma cross_edge_step_attaches:
  assumes "cross_edge_step self g st item = Inr st1" and "snd item \<ge> min_correlation self"
  shows "edge_exists (fst st1) (fst item) g"
proof -
  obtain net counts where st: "st = (net, counts)" by (cases st)
  obtain y p where item: "item = (y, p)" by (cases item)
  from assms obtain net1 counts1 where
    e: "add_edge net \<lparr>edge_from = y, edge_to = g, edge_width = network_edge_width self p\<rparr>
          = Inr net1"
    and s1: "st1 = (net1, counts1)"
    by (auto simp: cross_edge_step_def st item split: sum.splits)
  from edge_exists_add_edge [OF e] show ?thesis by (simp add: s1 item)
qed

lemma for_each_grows:
  assumes "for_each body st xs = Inr st1"
    and "\<And>s x s1. body s x = Inr s1 \<Longrightarrow> grows (fst s) (fst s1)"
  shows "grows (fst st) (fst st1)"
  by (rule for_each_invariant [where I = "\<lambda>s. grows (fst st) (fst s)", OF assms(1)])
    (auto intro: grows_refl grows_trans assms(2))

lemma cross_gene_step_cases:
  assumes "cross_gene_step self pos (net, counts) (g, d) = Inr st1"
  obtains main main_pcc where "main_tumor d = Inr main" "lookup d main = Inr main_pcc"
      "main_pcc < min_correlation self" "st1 = (net, counts)"
  | main main_pcc sz where "main_tumor d = Inr main" "lookup d main = Inr main_pcc"
      "\<not> main_pcc < min_correlation self"
      "for_each (cross_edge_step self g)
         (add_node net \<lparr>node_id = g, node_shape = Diamond, node_size = sz + 2\<rparr>, counts) d
         = Inr st1"
proof -
  from assms have "(\<exists>main main_pcc. main_tumor d = Inr main \<and> lookup d main = Inr main_pcc
        \<and> main_pcc < min_correlation self \<and> st1 = (net, counts))
      \<or> (\<exists>main main_pcc sz. main_tumor d = Inr main \<and> lookup d main = Inr main_pcc
        \<and> \<not> main_pcc < min_correlation self
        \<and> for_each (cross_edge_step self g)
         (add_node net \<lparr>node_id = g, node_shape = Diamond, node_size = sz + 2\<rparr>, counts) d
         = Inr st1)"
    unfolding cross_gene_step_def
    by (simp split: sum.splits if_splits) blast
  then show ?thesis using that by blast
qed

lemma cross_gene_step_grows:
  assumes "cross_gene_step self pos st item = Inr st1"
  shows "grows (fst st) (fst st1)"
proof -
  obtain net counts where st: "st = (net, counts)" by (cases st)
  obtain g d where item: "item = (g, d)" by (cases item)
  from assms [unfolded st item] show ?thesis
  proof (cases rule: cross_gene_step_cases)
    case 1
    then show ?thesis by (simp add: st grows_refl)
  next
    case (2 main main_pcc sz)
    from for_each_grows [OF 2(4) cross_edge_step_grows]
    have "grows (add_node net \<lparr>node_id = g, node_shape = Diamond, node_size = sz + 2\<rparr>) (fst st1)"
      by simp
    then show ?thesis using grows_add_node grows_trans by (simp add: st) blast
  qed
qed

lemma cross_gene_step_attaches:
  assumes "cross_gene_step self pos st (g, d) = Inr st1"
    and "\<And>main main_pcc. main_tumor d = Inr main \<Longrightarrow> lookup d main = Inr main_pcc
           \<Longrightarrow> \<not> main_pcc < min_correlation self"
    and "list_all (\<lambda>item. snd item \<ge> min_correlation self) d"
  shows "attached g d (fst st1)"
proof -
  obtain net counts where st: "st = (net, counts)" by (cases st)
  from assms(1) [unfolded st] show ?thesis
  proof (cases rule: cross_gene_step_cases)
    case (1 main main_pcc)
    then show ?thesis using assms(2) by blast
  next
    case (2 main main_pcc sz)
    let ?start = "(add_node net \<lparr>node_id = g, node_shape = Diamond, node_size = sz + 2\<rparr>, counts)"
    have g: "grows (fst ?start) (fst st1)"
      by (rule for_each_grows [OF 2(4) cross_edge_step_grows])
    then have node: "g \<in> set (node_ids (fst st1))"
      by (auto simp: grows_def node_ids_add_node)
    have "edge_exists (fst st1) (fst x) g" if x: "x \<in> set d" for x
    proof (rule for_each_establishes [where Q = "\<lambda>s. edge_exists (fst s) (fst x) g", OF 2(4) x])
      fix s s1
      assume "cross_edge_step self g s x = Inr s1"
      moreover have "snd x \<ge> min_correlation self" using assms(3) x by (simp add: list_all_iff)
      ultimately show "edge_exists (fst s1) (fst x) g" by (rule cross_edge_step_attaches)
    next
      fix s y s1
      assume "edge_exists (fst s) (fst x) g" "cross_edge_step self g s y = Inr s1"
      then show "edge_exists (fst s1) (fst x) g"
        using cross_edge_step_grows edge_exists_grows by blast
    qed
    then show ?thesis using node by (simp add: attached_def list_all_iff)
  qed
qed

lemma create_network_attaches:
  assumes "create_network self td = Inr (net, self1)"
    and "(g, d) \<in> set (cross_tumor_genes (collect_genes td))"
    and "\<And>main main_pcc. main_tumor d = Inr main \<Longrightarrow> lookup d main = Inr main_pcc
           \<Longrightarrow> \<not> main_pcc < min_correlation self"
    and "list_all (\<lambda>item. snd item \<ge> min_correlation self) d"
  shows "attached g d net"
proof -
  from assms(1) obtain pos st2 counts3 where
    p3: "for_each (cross_gene_step self pos) st2 (cross_tumor_genes (collect_genes td))
           = Inr (net, counts3)"
    by (auto simp: create_network_def Let_def split: sum.splits prod.splits)
  have "attached g d (fst (net, counts3))"
  proof (rule for_each_establishes [where Q = "\<lambda>s. attached g d (fst s)", OF p3 assms(2)])
    fix s s1
    assume "cross_gene_step self pos s (g, d) = Inr s1"
    then show "attached g d (fst s1)" using assms(3,4) by (rule cross_gene_step_attaches)
  next
    fix s y s1
    assume "attached g d (fst s)" "cross_gene_step self pos s y = Inr s1"
    then show "attached g d (fst s1)"
      using cross_gene_step_grows attached_grows by blast
  qed
  then show ?thesis by simp
qed

lemma for_each_succeeds:
  assumes "I s"
    and "\<And>s x. x \<in> set xs \<Longrightarrow> I s \<Longrightarrow> \<exists>s1. body s x = Inr s1 \<and> I s1"
  shows "\<exists>s1. for_each body s xs = Inr s1 \<and> I s1"
  using assms
proof (induction xs arbitrary: s)
  case Nil
  then show ?case by simp
next
  case (Cons x xs)
  from Cons.prems obtain s1 where b: "body s x = Inr s1" and i: "I s1" by fastforce
  from Cons.IH [OF i] Cons.prems(2) obtain s2 where "for_each body s1 xs = Inr s2" "I s2"
    by fastforce
  then show ?case using b by simp
qed

lemma add_edge_succeeds:
  assumes "edge_from e \<in> set (node_ids net)" and "edge_to e \<in> set (node_ids net)"
  shows "\<exists>net1. add_edge net e = Inr net1 \<and> grows net net1"
proof -
  from assms have "\<exists>net1. add_edge net e = Inr net1"
    by (simp add: add_edge_def)
  then show ?thesis using grows_add_edge by blast
qed

lemma increment_succeeds:
  assumes "k \<in> fst ` set counts"
  shows "\<exists>counts1. increment counts k = Inr counts1 \<and> fst ` set counts1 = fst ` set counts"
proof -
  from assms obtain n where "map_of counts k = Some n"
    by (metis map_of_eq_None_iff not_Some_eq)
  then show ?thesis using assms by (auto simp: increment_def AList.dom_update)
qed

lemma tumor_node_step_succeeds:
  assumes "''GCH1'' \<in> set (node_ids (fst st))"
  shows "\<exists>st1. tumor_node_step td st t = Inr st1 \<and> ''GCH1'' \<in> set (node_ids (fst st1))"
proof -
  obtain net pos counts where st: "st = (net, pos, counts)" by (cases st)
  let ?net = "add_node net \<lparr>node_id = t, node_shape = Dot, node_size = 20\<rparr>"
  have "\<exists>net1. add_edge ?net \<lparr>edge_from = ''GCH1'', edge_to = t, edge_width = 2\<rparr> = Inr net1
      \<and> grows ?net net1"
    using assms by (intro add_edge_succeeds) (auto simp: st node_ids_add_node)
  then obtain net1 where
    e: "add_edge ?net \<lparr>edge_from = ''GCH1'', edge_to = t, edge_width = 2\<rparr> = Inr net1"
    and g: "grows ?net net1" by blast
  from g assms have "''GCH1'' \<in> set (node_ids net1)"
    by (auto simp: grows_def st node_ids_add_node)
  then show ?thesis using e assms by (simp add: tumor_node_step_def st)
qed

lemma network_node_size_succeeds:
  "min_correlation self \<noteq> 1 \<Longrightarrow> \<exists>sz. network_node_size self pcc = Inr sz"
  by (simp add: network_node_size_def py_div_def split: prod.splits)

lemma ready_grows:
  "ready K (net, counts) \<Longrightarrow> grows net net1 \<Longrightarrow> fst ` set counts1 = fst ` set counts
     \<Longrightarrow> ready K (net1, counts1)"
  by (auto simp: ready_def grows_def)

lemma specific_gene_step_succeeds:
  assumes "min_correlation self \<noteq> 1" and "ready K st" and "y \<in> K"
  shows "\<exists>st1. specific_gene_step self y st r = Inr st1 \<and> ready K st1"
proof -
  obtain net counts where st: "st = (net, counts)" by (cases st)
  obtain g p where r: "r = (g, p)" by (cases r)
  from network_node_size_succeeds [OF assms(1)] obtain sz where
    sz: "network_node_size self p = Inr sz" by blast
  let ?net = "add_node net \<lparr>node_id = g, node_shape = Dot, node_size = sz\<rparr>"
  have "\<exists>net1. add_edge ?net \<lparr>edge_from = y, edge_to = g,
        edge_width = network_edge_width self p\<rparr> = Inr net1 \<and> grows ?net net1"
    using assms(2,3) by (intro add_edge_succeeds) (auto simp: st ready_def node_ids_add_node)
  then obtain net1 where
    e: "add_edge ?net \<lparr>edge_from = y, edge_to = g,
        edge_width = network_edge_width self p\<rparr> = Inr net1"
    and g: "grows ?net net1" by blast
  from assms(2,3) have "y \<in> fst ` set counts" by (auto simp: ready_def st)
  from increment_succeeds [OF this] obtain counts1 where
    i: "increment counts y = Inr counts1" and k: "fst ` set counts1 = fst ` set counts" by blast
  have "grows net net1" using grows_add_node g by (rule grows_trans)
  then have "ready K (net1, counts1)" using assms(2) k by (auto intro: ready_grows simp: st)
  then show ?thesis by (simp add: specific_gene_step_def st r sz e i)
qed

lemma tumor_specific_step_succeeds:
  assumes "min_correlation self \<noteq> 1" and "ready (fst ` set td) st" and "fst ` set td \<subseteq> set pos"
  shows "\<exists>st1. tumor_specific_step self td ag pos st y = Inr st1 \<and> ready (fst ` set td) st1"
proof (cases "map_of td y")
  case None
  then show ?thesis using assms(2) by (simp add: tumor_specific_step_def)
next
  case (Some df)
  then have y: "y \<in> fst ` set td" by (metis map_of_eq_None_iff option.distinct(1))
  then have p: "y \<in> set pos" using assms(3) by blast
  let ?rows = "filter (\<lambda>r. is_tumor_specific ag (fst r)) df"
  let ?ordered = "if ?rows \<noteq> [] then sort_by_pcc_descending ?rows else ?rows"
  have "\<exists>st1. for_each (specific_gene_step self y) st ?ordered = Inr st1
      \<and> ready (fst ` set td) st1"
    by (rule for_each_succeeds [where I = "ready (fst ` set td)", OF assms(2)])
      (rule specific_gene_step_succeeds [OF assms(1) _ y])
  then show ?thesis using Some p by (simp add: tumor_specific_step_def Let_def)
qed

lemma cross_edge_step_succeeds:
  assumes "ready K st" and "fst item \<in> K" and "g \<in> set (node_ids (fst st))"
  shows "\<exists>st1. cross_edge_step self g st item = Inr st1 \<and> ready K st1
           \<and> g \<in> set (node_ids (fst st1))"
proof -
  obtain net counts where st: "st = (net, counts)" by (cases st)
  obtain y p where item: "item = (y, p)" by (cases item)
  show ?thesis
  proof (cases "p \<ge> min_correlation self")
    case False
    then show ?thesis using assms by (simp add: cross_edge_step_def st item)
  next
    case True
    have "\<exists>net1. add_edge net \<lparr>edge_from = y, edge_to = g,
        edge_width = network_edge_width self p\<rparr> = Inr net1 \<and> grows net net1"
      using assms by (intro add_edge_succeeds) (auto simp: st item ready_def)
    then obtain net1 where
      e: "add_edge net \<lparr>edge_from = y, edge_to = g,
            edge_width = network_edge_width self p\<rparr> = Inr net1"
      and g: "grows net net1" by blast
    from assms(1,2) have "y \<in> fst ` set counts" by (auto simp: ready_def st item)
    from increment_succeeds [OF this] obtain counts1 where
      i: "increment counts y = Inr counts1" and k: "fst ` set counts1 = fst ` set counts"
      by blast
    have "ready K (net1, counts1)" using assms(1) g k by (auto intro: ready_grows simp: st)
    moreover have "g \<in> set (node_ids net1)" using assms(3) g by (auto simp: st grows_def)
    ultimately show ?thesis using True by (simp add: cross_edge_step_def st item e i)
  qed
qed

lemma main_tumor_succeeds:
  assumes "d \<noteq> []"
  shows "\<exists>main main_pcc. main_tumor d = Inr main \<and> lookup d main = Inr main_pcc
           \<and> main \<in> fst ` set d"
proof -
  from assms obtain x xs where d: "d = x # xs" by (cases d) auto
  have "py_max_item x xs \<in> set d" unfolding d by (rule py_max_item_in_set)
  then have m: "fst (py_max_item x xs) \<in> fst ` set d" by blast
  then obtain s where "map_of d (fst (py_max_item x xs)) = Some s"
    by (metis map_of_eq_None_iff not_Some_eq)
  then show ?thesis using m by (simp add: main_tumor_def lookup_def d)
qed

lemma cross_gene_step_succeeds:
  assumes "min_correlation self \<noteq> 1" and "ready K st" and "K \<subseteq> set pos"
    and "fst ` set d \<subseteq> K" and "d \<noteq> []"
  shows "\<exists>st1. cross_gene_step self pos st (g, d) = Inr st1 \<and> ready K st1"
proof -
  obtain net counts where st: "st = (net, counts)" by (cases st)
  from main_tumor_succeeds [OF assms(5)] obtain main main_pcc where
    m: "main_tumor d = Inr main" and l: "lookup d main = Inr main_pcc"
    and k: "main \<in> fst ` set d" by blast
  show ?thesis
  proof (cases "main_pcc < min_correlation self")
    case True
    then show ?thesis using assms(2) by (simp add: cross_gene_step_def st m l)
  next
    case False
    from k assms(3,4) have p: "main \<in> set pos" by blast
    from network_node_size_succeeds [OF assms(1)] obtain sz where
      sz: "network_node_size self main_pcc = Inr sz" by blast
    let ?start = "(add_node net \<lparr>node_id = g, node_shape = Diamond, node_size = sz + 2\<rparr>, counts)"
    let ?I = "\<lambda>s. ready K s \<and> g \<in> set (node_ids (fst s))"
    have start: "?I ?start"
      using assms(2) by (auto simp: st ready_def node_ids_add_node)
    have "\<exists>st1. for_each (cross_edge_step self g) ?start d = Inr st1 \<and> ?I st1"
    proof (rule for_each_succeeds [where I = ?I, OF start])
      fix s x
      assume "x \<in> set d" and "?I s"
      then show "\<exists>s1. cross_edge_step self g s x = Inr s1 \<and> ?I s1"
        using assms(4) by (intro cross_edge_step_succeeds) auto
    qed
    then obtain st1 where "for_each (cross_edge_step self g) ?start d = Inr st1" "ready K st1"
      by blast
    then show ?thesis using False p by (simp add: cross_gene_step_def st m l sz)
  qed
qed

lemma cross_tumor_keys:
  assumes "distinct (map fst td)" and "(g, d) \<in> set (cross_tumor_genes (collect_genes td))"
  shows "fst ` set d \<subseteq> fst ` set td" and "d \<noteq> []"
proof -
  note e = cross_tumor_entry [OF assms(2)]
  show "d \<noteq> []" using e(3) by auto
  show "fst ` set d \<subseteq> fst ` set td"
  proof
    fix t assume "t \<in> fst ` set d"
    then have "map_of d t \<noteq> None" by (simp add: map_of_eq_None_iff)
    then have "membership (collect_genes td) g t \<noteq> None"
      using e(1) by (simp add: membership_tumors_of)
    then obtain df where "map_of td t = Some df"
      using membership_present [OF assms(1)] by blast
    then show "t \<in> fst ` set td" by (metis map_of_eq_None_iff option.distinct(1))
  qed
qed

lemma create_network_returns:
  assumes "min_correlation self \<noteq> 1" and "distinct (map fst td)"
    and "fst ` set td \<subseteq> set (tumor_types self)"
  shows "\<exists>net self1. create_network self td = Inr (net, self1)"
proof -
  let ?K = "fst ` set td"
  let ?net0 = "add_node \<lparr>directed = False, nodes = [], edges = []\<rparr>
                   \<lparr>node_id = ''GCH1'', node_shape = Dot, node_size = 30\<rparr>"
  let ?ag = "collect_genes td"
  have "\<exists>s1. for_each (tumor_node_step td) (?net0, [], gene_counts self) (tumor_types self)
      = Inr s1 \<and> ''GCH1'' \<in> set (node_ids (fst s1))"
    by (rule for_each_succeeds [where I = "\<lambda>s. ''GCH1'' \<in> set (node_ids (fst s))"])
      (simp add: node_ids_add_node, rule tumor_node_step_succeeds)
  then obtain net1 pos counts1 where
    p1: "for_each (tumor_node_step td) (?net0, [], gene_counts self) (tumor_types self)
           = Inr (net1, pos, counts1)"
    by (metis prod_cases3)
  have each: "t \<in> set (node_ids net1) \<and> t \<in> set pos \<and> map_of counts1 t = Some 0"
    if t: "t \<in> ?K" for t
  proof -
    from t assms(3) have ts: "t \<in> set (tumor_types self)" by blast
    have "t \<in> set (node_ids (fst (net1, pos, counts1)))
      \<and> t \<in> set (fst (snd (net1, pos, counts1)))
      \<and> map_of (snd (snd (net1, pos, counts1))) t = Some 0"
      by (rule for_each_establishes [OF p1 ts])
        (erule tumor_node_step_establishes [OF _ t], erule tumor_node_step_preserves, assumption)
    then show ?thesis by simp
  qed
  then have pos: "?K \<subseteq> set pos" by blast
  have r1: "ready ?K (net1, counts1)"
  proof -
    have "t \<in> fst ` set counts1" if "t \<in> ?K" for t
      using each [OF that] by (metis map_of_eq_None_iff option.distinct(1))
    then show ?thesis using each by (auto simp: ready_def)
  qed
  have "\<exists>st2. for_each (tumor_specific_step self td ?ag pos) (net1, counts1) (tumor_types self)
      = Inr st2 \<and> ready ?K st2"
    by (rule for_each_succeeds [where I = "ready ?K", OF r1])
      (rule tumor_specific_step_succeeds [OF assms(1) _ pos])
  then obtain st2 where
    p2: "for_each (tumor_specific_step self td ?ag pos) (net1, counts1) (tumor_types self)
           = Inr st2" and r2: "ready ?K st2" by blast
  have "\<exists>st3. for_each (cross_gene_step self pos) st2 (cross_tumor_genes ?ag) = Inr st3
      \<and> ready ?K st3"
  proof (rule for_each_succeeds [where I = "ready ?K", OF r2])
    fix s x
    assume x: "x \<in> set (cross_tumor_genes ?ag)" and r: "ready ?K s"
    obtain g d where xd: "x = (g, d)" by (cases x)
    from cross_tumor_keys [OF assms(2) x [unfolded xd]]
    show "\<exists>s1. cross_gene_step self pos s x = Inr s1 \<and> ready ?K s1"
      unfolding xd by (intro cross_gene_step_succeeds [OF assms(1) r pos])
  qed
  then obtain net3 counts3 where
    p3: "for_each (cross_gene_step self pos) st2 (cross_tumor_genes ?ag) = Inr (net3, counts3)"
    by (metis surj_pair)
  show ?thesis by (simp add: create_network_def Let_def p1 p2 p3)
qed

lemma create_network_ignores_cap:
  "map_sum id fst (create_network (self\<lparr>max_genes_per_tumor := n\<rparr>) td)
     = map_sum id fst (create_network self td)"
proof -
  have a: "network_node_size (self\<lparr>max_genes_per_tumor := n\<rparr>) = network_node_size self"
    by (rule ext) (simp add: network_node_size_def)
  have b: "network_edge_width (self\<lparr>max_genes_per_tumor := n\<rparr>) = network_edge_width self"
    by (rule ext) (simp add: network_edge_width_def)
  have c: "specific_gene_step (self\<lparr>max_genes_per_tumor := n\<rparr>) = specific_gene_step self"
    by (intro ext) (simp add: specific_gene_step_def a b split: prod.splits sum.splits)
  have d: "tumor_specific_step (self\<lparr>max_genes_per_tumor := n\<rparr>) = tumor_specific_step self"
    by (intro ext) (simp add: tumor_specific_step_def c split: option.splits)
  have e: "cross_edge_step (self\<lparr>max_genes_per_tumor := n\<rparr>) = cross_edge_step self"
    by (intro ext) (simp add: cross_edge_step_def b split: prod.splits sum.splits)
  have f: "cross_gene_step (self\<lparr>max_genes_per_tumor := n\<rparr>) = cross_gene_step self"
    by (intro ext) (simp add: cross_gene_step_def a e split: prod.splits sum.splits)
  show ?thesis
    by (simp add: create_network_def d f Let_def split: sum.splits prod.splits)
qed

section \<open>The claims\<close>

text \<open>
  Claim C1 (an entity is cross-category exactly if it appears in more than one category,
  whatever the order of rows and tables). In \<^verbatim>\<open>create_network\<close> this holds: a gene is
  in \<open>cross_tumor_genes\<close> exactly if more than one table holds it, \<open>membership\<close> is
  defined exactly on the tables that hold it, and a second input with the same tables in
  another order of tables and rows gives the same classification. In
  \<^verbatim>\<open>create_survival_tree\<close> it does not: \<open>gene_tumors\<close> is a list that gets one entry per
  row, so a gene that occurs twice in the single table \<open>A\<close> is counted as appearing in two
  tumors and drawn as a cross-tumor diamond, while \<^verbatim>\<open>create_network\<close> on the same input
  finds no cross-tumor gene.
\<close>

theorem cross_tumor_classification:
  assumes "distinct (map fst td)" and "distinct (map fst td2)"
    and "map_option set \<circ> map_of td2 = map_option set \<circ> map_of td"
  shows "(g \<in> fst ` set (cross_tumor_genes (collect_genes td)))
           = (1 < card {t. \<exists>df. map_of td t = Some df \<and> g \<in> fst ` set df})
       \<and> (membership (collect_genes td) g t \<noteq> None)
           = (\<exists>df. map_of td t = Some df \<and> g \<in> fst ` set df)
       \<and> (g \<in> fst ` set (cross_tumor_genes (collect_genes td2)))
           = (g \<in> fst ` set (cross_tumor_genes (collect_genes td)))
       \<and> (case survival_tree_pass tree_init duplicate_rows of
            Inl e \<Rightarrow> False
          | Inr (net, gene_tumors, counts) \<Rightarrow>
              gene_tumors = [(''g1'', [''A'', ''A''])] \<and> is_cross_tumor [''A'', ''A''])
       \<and> map_sum id (map node_shape \<circ> nodes \<circ> fst) (create_survival_tree tree_init duplicate_rows)
           = Inr [Ellipse, Box, Diamond]
       \<and> cross_tumor_genes (collect_genes duplicate_rows) = []"
proof -
  have same: "(\<exists>df. map_of td2 t = Some df \<and> g \<in> fst ` set df)
      = (\<exists>df. map_of td t = Some df \<and> g \<in> fst ` set df)" for t
  proof -
    from assms(3) have "map_option set (map_of td2 t) = map_option set (map_of td t)"
      by (metis comp_apply)
    then show ?thesis
      by (cases "map_of td t"; cases "map_of td2 t") auto
  qed
  have a: "(g \<in> fst ` set (cross_tumor_genes (collect_genes x)))
           = (1 < card {t. \<exists>df. map_of x t = Some df \<and> g \<in> fst ` set df})"
    if "distinct (map fst x)" for x :: "dataframe dict"
    by (simp only: cross_tumor_iff_card membership_present [OF that])
  have b: "(membership (collect_genes td) g t \<noteq> None)
           = (\<exists>df. map_of td t = Some df \<and> g \<in> fst ` set df)"
    by (rule membership_present [OF assms(1)])
  have c: "(g \<in> fst ` set (cross_tumor_genes (collect_genes td2)))
           = (g \<in> fst ` set (cross_tumor_genes (collect_genes td)))"
    by (simp only: a [OF assms(1)] a [OF assms(2)] same)
  have d: "(case survival_tree_pass tree_init duplicate_rows of
            Inl e \<Rightarrow> False
          | Inr (net, gene_tumors, counts) \<Rightarrow>
              gene_tumors = [(''g1'', [''A'', ''A''])] \<and> is_cross_tumor [''A'', ''A''])"
    by (simp add: tree_eval duplicate_rows_def tree_init_def)
  have e: "map_sum id (map node_shape \<circ> nodes \<circ> fst)
             (create_survival_tree tree_init duplicate_rows) = Inr [Ellipse, Box, Diamond]"
    by (simp add: tree_eval duplicate_rows_def tree_init_def)
  have f: "cross_tumor_genes (collect_genes duplicate_rows) = []"
    by code_simp
  show ?thesis using a [OF assms(1)] b c d e f by blast
qed

theorem cross_tumor_classification_witness:
  "distinct (map fst example_tables)
   \<and> distinct (map fst [(''B'', [(''g3'', 0.55), (''g1'', 0.7 :: real)]),
                        (''A'', [(''g2'', 0.6), (''g1'', 0.9)])])
   \<and> ''g1'' \<in> fst ` set (cross_tumor_genes (collect_genes example_tables))
   \<and> ''g1'' \<in> fst ` set (cross_tumor_genes (collect_genes
        [(''B'', [(''g3'', 0.55), (''g1'', 0.7)]), (''A'', [(''g2'', 0.6), (''g1'', 0.9)])]))
   \<and> ''g2'' \<notin> fst ` set (cross_tumor_genes (collect_genes example_tables))"
proof -
  let ?td2 = "[(''B'', [(''g3'', 0.55), (''g1'', 0.7 :: real)]),
               (''A'', [(''g2'', 0.6), (''g1'', 0.9)])]"
  have a: "distinct (map fst example_tables)" by (simp add: example_tables_def)
  have b: "distinct (map fst ?td2)" by simp
  have c: "map_option set \<circ> map_of ?td2 = map_option set \<circ> map_of example_tables"
    by (rule ext) (auto simp: example_tables_def)
  have g1: "''g1'' \<in> fst ` set (cross_tumor_genes (collect_genes example_tables))"
    by (simp add: collect_example cross_tumor_genes_def)
  have g2: "''g2'' \<notin> fst ` set (cross_tumor_genes (collect_genes example_tables))"
    by (simp add: collect_example cross_tumor_genes_def)
  from cross_tumor_classification [OF a b c, of "''g1''"] g1
  have "''g1'' \<in> fst ` set (cross_tumor_genes (collect_genes ?td2))" by blast
  then show ?thesis using a b g1 g2 by blast
qed

text \<open>
  Claim C4, as stated (a recurring entity/category pair keeps the higher score), fails:
  the assignment \<^verbatim>\<open>all_genes[gene_id][tumor_type] = pcc\<close> overwrites. With rows
  \<open>(g1, 0.9)\<close> and then \<open>(g1, 0.6)\<close> in table \<open>A\<close> the stored score is 0.6, the maximum
  is 0.9.
\<close>

theorem keep_higher_score_counterexample:
  "membership (collect_genes duplicate_rows) ''g1'' ''A'' = Some 0.6
   \<and> Max (snd ` {r \<in> set [(''g1'', 0.9), (''g1'', 0.6 :: real)]. fst r = ''g1''}) = 0.9"
proof -
  have "{r \<in> set [(''g1'', 0.9), (''g1'', 0.6 :: real)]. fst r = ''g1''}
      = {(''g1'', 0.9), (''g1'', 0.6)}" by auto
  then show ?thesis
    by (simp add: duplicate_rows_def collect_genes_def collect_table_def record_gene_def
        membership_def)
qed

text \<open>
  Claim C4, amended. If a gene occurs in the table of a category (the tables being the
  values of a dict, so with distinct keys), the aggregate holds for that pair the score of
  the last row of the table that carries the gene: the last write wins.
\<close>

theorem aggregation_keeps_last_score:
  assumes "distinct (map fst tumor_data)" and "map_of tumor_data tumor = Some df"
    and "gene \<in> fst ` set df"
  shows "membership (collect_genes tumor_data) gene tumor
           = Some (snd (last (filter (\<lambda>r. fst r = gene) df)))"
proof -
  from assms(3) have "filter (\<lambda>r. fst r = gene) df \<noteq> []"
    by (auto simp: filter_empty_conv)
  then show ?thesis using assms(2) by (simp add: membership_collect_genes [OF assms(1)])
qed

theorem aggregation_keeps_last_score_witness:
  "distinct (map fst duplicate_rows)
   \<and> map_of duplicate_rows ''A'' = Some [(''g1'', 0.9), (''g1'', 0.6)]
   \<and> ''g1'' \<in> fst ` set [(''g1'', 0.9), (''g1'', 0.6 :: real)]
   \<and> membership (collect_genes duplicate_rows) ''g1'' ''A'' = Some 0.6"
proof -
  have a: "distinct (map fst duplicate_rows)" by (simp add: duplicate_rows_def)
  have b: "map_of duplicate_rows ''A'' = Some [(''g1'', 0.9), (''g1'', 0.6)]"
    by (simp add: duplicate_rows_def)
  have c: "''g1'' \<in> fst ` set [(''g1'', 0.9), (''g1'', 0.6 :: real)]" by simp
  from aggregation_keeps_last_score [OF a b c] show ?thesis using a b c by simp
qed

text \<open>
  Claim C5. For every cross-tumor gene of the aggregate, \<^verbatim>\<open>max(tumor_pccs.items(), ...)\<close>
  returns a tumor that stands in the gene's inner dict at the first position holding the
  greatest score: every entry before it has a strictly smaller score, every entry after it
  a score that is not greater, and \<open>main_pcc\<close> is that score. The inner dict lists the
  tumors in the order of the tables of \<open>tumor_data\<close> that hold the gene, so among tumors
  with the maximal score the one whose table comes first is chosen.
\<close>

theorem representative_is_first_argmax:
  assumes "distinct (map fst tumor_data)"
    and "(gene, tumor_pccs) \<in> set (cross_tumor_genes (collect_genes tumor_data))"
  shows "\<exists>before main s after.
           tumor_pccs = before @ (main, s) # after
         \<and> main_tumor tumor_pccs = Inr main
         \<and> lookup tumor_pccs main = Inr s
         \<and> list_all (\<lambda>x. snd x < s) before
         \<and> list_all (\<lambda>x. snd x \<le> s) after
         \<and> map fst tumor_pccs
             = map fst (filter (\<lambda>item. gene \<in> fst ` set (snd item)) tumor_data)"
proof -
  note e = cross_tumor_entry [OF assms(2)]
  from e(3) obtain x xs where d: "tumor_pccs = x # xs" by (cases tumor_pccs) auto
  have "\<exists>before after. [] @ x # [] @ xs = before @ py_max_item x xs # after
           \<and> (\<forall>y\<in>set before. snd y < snd (py_max_item x xs))
           \<and> (\<forall>y\<in>set after. snd y \<le> snd (py_max_item x xs))"
    by (rule py_max_item_first_maximum) simp_all
  then obtain before after where
    split: "tumor_pccs = before @ py_max_item x xs # after"
    and lt: "\<forall>y\<in>set before. snd y < snd (py_max_item x xs)"
    and le: "\<forall>y\<in>set after. snd y \<le> snd (py_max_item x xs)"
    by (auto simp: d)
  obtain main s where m: "py_max_item x xs = (main, s)" by (cases "py_max_item x xs")
  have mt: "main_tumor tumor_pccs = Inr main" by (simp add: main_tumor_def d m)
  have "(main, s) \<in> set tumor_pccs" using split m by simp
  then have "map_of tumor_pccs main = Some s" using e(2) by simp
  then have lk: "lookup tumor_pccs main = Inr s" by (simp add: lookup_def)
  have keys: "map fst tumor_pccs
      = map fst (filter (\<lambda>item. gene \<in> fst ` set (snd item)) tumor_data)"
    using keys_collect_genes [OF assms(1), of gene] e(1) by simp
  show ?thesis using split m mt lk lt le keys by (auto simp: list_all_iff)
qed

theorem representative_is_first_argmax_witness:
  "distinct (map fst example_tables)
   \<and> (''g1'', [(''A'', 0.9), (''B'', 0.7)]) \<in> set (cross_tumor_genes (collect_genes example_tables))
   \<and> main_tumor [(''A'', 0.9), (''B'', 0.7)] = Inr ''A''
   \<and> map fst [(''A'', 0.9 :: real), (''B'', 0.7)]
       = map fst (filter (\<lambda>item. ''g1'' \<in> fst ` set (snd item)) example_tables)
   \<and> main_tumor [(''A'', 0.7), (''B'', 0.7), (''C'', 0.6)] = Inr ''A''"
proof -
  have a: "distinct (map fst example_tables)" by (simp add: example_tables_def)
  have b: "(''g1'', [(''A'', 0.9), (''B'', 0.7)])
      \<in> set (cross_tumor_genes (collect_genes example_tables))"
    by (simp add: collect_example cross_tumor_genes_def)
  from representative_is_first_argmax [OF a b]
  have k: "map fst [(''A'', 0.9 :: real), (''B'', 0.7)]
       = map fst (filter (\<lambda>item. ''g1'' \<in> fst ` set (snd item)) example_tables)"
    by blast
  have c: "main_tumor [(''A'', 0.9), (''B'', 0.7)] = Inr ''A''"
    by (simp add: main_tumor_def)
  have d: "main_tumor [(''A'', 0.7), (''B'', 0.7), (''C'', 0.6)] = Inr ''A''"
    by (simp add: main_tumor_def)
  show ?thesis using a b c d k by blast
qed

text \<open>
  Claim C7. \<^verbatim>\<open>load_all_data\<close> always returns. For every tumor type, the returned dict
  holds under it the rows of its file with \<open>PCC\<close> at least the threshold, in the file's
  order, if the tumor type was discovered and its file loads; it holds nothing under it
  otherwise. An error is logged for a tumor type exactly if it was discovered and its file
  fails. So a failing file removes its own category and no other.
\<close>

theorem load_tolerates_single_failures:
  "map_of (fst (load_all_data self fs data_dir discovered)) tumor_type =
     (if tumor_type \<in> set discovered
      then (case fs (file_path data_dir tumor_type) of
              Table df \<Rightarrow> Some (filter (\<lambda>r. snd r \<ge> min_correlation self) df)
            | ReadFails \<Rightarrow> None
            | FilterFails \<Rightarrow> None)
      else None)
   \<and> (LogError tumor_type \<in> set (snd (snd (load_all_data self fs data_dir discovered)))) =
     (tumor_type \<in> set discovered
      \<and> (fs (file_path data_dir tumor_type) = ReadFails
         \<or> fs (file_path data_dir tumor_type) = FilterFails))"
  by (auto simp: load_all_data_fst load_all_data_log foldl_load_one_data foldl_load_one_errors
      loaded_table_def split: csv_file.splits)

text \<open>
  Claim C8 (the cap \<open>max_genes_per_tumor\<close> is applied in both programs). The tree program
  applies it with \<^verbatim>\<open>df.nlargest\<close>. The network program sets the attribute in \<^verbatim>\<open>__init__\<close>
  and never reads it: the network it builds does not depend on the cap. With the cap set
  to 1 on the tables of the specification's example, \<open>g2\<close> stays in the membership of
  \<open>A\<close> and gets its node in the network, while the tree drops it.
\<close>

theorem cap_not_applied_in_network:
  "map_sum id (node_ids \<circ> fst)
       (create_network (network_init\<lparr>tumor_types := [''A'', ''B''], max_genes_per_tumor := 1\<rparr>)
          example_tables)
     = Inr [''GCH1'', ''A'', ''B'', ''g2'', ''g3'', ''g1'']
   \<and> membership (collect_genes example_tables) ''g2'' ''A'' = Some 0.6
   \<and> map_sum id (node_ids \<circ> fst)
       (create_survival_tree (tree_init\<lparr>max_genes_per_tumor := 1\<rparr>) example_tables)
     = Inr [''Poor Prognosis'', ''A'', ''g1_A'', ''B'', ''g1_B'']
   \<and> map_sum id fst (create_network (self\<lparr>max_genes_per_tumor := n\<rparr>) td)
     = map_sum id fst (create_network self td)"
proof -
  have a: "map_sum id (node_ids \<circ> fst)
       (create_network (network_init\<lparr>tumor_types := [''A'', ''B''], max_genes_per_tumor := 1\<rparr>)
          example_tables)
     = Inr [''GCH1'', ''A'', ''B'', ''g2'', ''g3'', ''g1'']"
    by code_simp
  have b: "membership (collect_genes example_tables) ''g2'' ''A'' = Some 0.6"
    by code_simp
  have c: "map_sum id (node_ids \<circ> fst)
       (create_survival_tree (tree_init\<lparr>max_genes_per_tumor := 1\<rparr>) example_tables)
     = Inr [''Poor Prognosis'', ''A'', ''g1_A'', ''B'', ''g1_B'']"
    by (simp add: tree_eval example_tables_def tree_init_def)
  show ?thesis using a b c create_network_ignores_cap by blast
qed




text \<open>
  Claim C10. Let \<open>tumor_data\<close> be what \<^verbatim>\<open>load_all_data\<close> returned and let
  \<^verbatim>\<open>create_network\<close> run with the settings the loader left. Then for every cross-tumor gene
  \<^verbatim>\<open>main_tumor\<close> and \<^verbatim>\<open>main_pcc\<close> are defined, the guard \<^verbatim>\<open>main_pcc < self.min_correlation\<close>
  is false, and \<^verbatim>\<open>pcc >= self.min_correlation\<close> is true of every entry of its inner dict.
  So nothing is dropped: if the threshold is not 1 the network is returned, and it holds
  the gene's node and joins the gene to every tumor of its inner dict.
\<close>

theorem threshold_guards_never_fire:
  assumes "load_all_data self fs data_dir discovered = (tumor_data, self1, logged)"
    and "(gene_id, tumor_pccs) \<in> set (cross_tumor_genes (collect_genes tumor_data))"
  shows "(\<exists>main main_pcc.
            main_tumor tumor_pccs = Inr main \<and> lookup tumor_pccs main = Inr main_pcc
          \<and> \<not> main_pcc < min_correlation self1)
       \<and> list_all (\<lambda>item. snd item \<ge> min_correlation self1) tumor_pccs
       \<and> (min_correlation self1 = 1
          \<or> (\<exists>net self2. create_network self1 tumor_data = Inr (net, self2)
                \<and> gene_id \<in> set (node_ids net)
                \<and> list_all (\<lambda>item. edge_exists net (fst item) gene_id) tumor_pccs))"
proof -
  have td: "tumor_data = fst (load_all_data self fs data_dir discovered)"
    by (simp add: assms(1))
  have s1: "min_correlation self1 = min_correlation self"
    and ts: "tumor_types self1 = discovered"
    using assms(1) by (auto simp: load_all_data_def split: prod.splits)
  have "rows_at_least (min_correlation self) tumor_data"
    unfolding td by (rule rows_at_least_load_all_data)
  then have s: "scores_at_least (min_correlation self) (collect_genes tumor_data)"
    by (rule scores_at_least_collect_genes)
  from assms(2) have mem: "(gene_id, tumor_pccs) \<in> set (collect_genes tumor_data)"
    and len: "1 < length tumor_pccs"
    by (auto simp: cross_tumor_genes_def)
  from s mem have all: "list_all (\<lambda>item. snd item \<ge> min_correlation self) tumor_pccs"
    by (auto simp: scores_at_least_def list_all_iff)
  have guard: "\<not> main_pcc < min_correlation self"
    if "main_tumor tumor_pccs = Inr main" "lookup tumor_pccs main = Inr main_pcc"
    for main main_pcc
  proof -
    from that(2) have "map_of tumor_pccs main = Some main_pcc"
      by (simp add: lookup_def split: option.splits)
    then have "(main, main_pcc) \<in> set tumor_pccs" by (rule map_of_SomeD)
    then show ?thesis using all by (auto simp: list_all_iff)
  qed
  from len have "tumor_pccs \<noteq> []" by auto
  from main_tumor_succeeds [OF this] obtain main main_pcc where
    m: "main_tumor tumor_pccs = Inr main" "lookup tumor_pccs main = Inr main_pcc" by blast
  have first: "\<exists>main main_pcc.
            main_tumor tumor_pccs = Inr main \<and> lookup tumor_pccs main = Inr main_pcc
          \<and> \<not> main_pcc < min_correlation self1"
    using m guard [OF m] s1 by auto
  have dist: "distinct (map fst tumor_data)"
    unfolding td by (rule distinct_load_all_data)
  have keys: "fst ` set tumor_data \<subseteq> set (tumor_types self1)"
  proof
    fix t assume "t \<in> fst ` set tumor_data"
    then have "map_of (fst (load_all_data self fs data_dir discovered)) t \<noteq> None"
      by (simp add: td map_of_eq_None_iff)
    then show "t \<in> set (tumor_types self1)"
      by (auto simp: ts load_all_data_fst foldl_load_one_data split: if_splits)
  qed
  have last: "\<exists>net self2. create_network self1 tumor_data = Inr (net, self2)
                \<and> gene_id \<in> set (node_ids net)
                \<and> list_all (\<lambda>item. edge_exists net (fst item) gene_id) tumor_pccs"
    if ne: "min_correlation self1 \<noteq> 1"
  proof -
    from create_network_returns [OF ne dist keys] obtain net self2 where
      r: "create_network self1 tumor_data = Inr (net, self2)" by blast
    have "attached gene_id tumor_pccs net"
      by (rule create_network_attaches [OF r assms(2)]) (use guard all s1 in auto)
    then show ?thesis using r by (auto simp: attached_def)
  qed
  show ?thesis using first all last s1 by auto
qed

theorem threshold_guards_never_fire_witness:
  "load_all_data network_init example_files ''data'' [''A'', ''B'', ''C'', ''D'']
     = ([(''A'', [(''g1'', 0.9), (''g2'', 0.6)]), (''B'', [(''g1'', 0.7), (''g3'', 0.55)])],
        network_init\<lparr>tumor_types := [''A'', ''B'', ''C'', ''D''],
                     gene_counts := [(''A'', 0), (''B'', 0), (''C'', 0)]\<rparr>,
        [LogInfo ''A'' 2, LogInfo ''B'' 2, LogError ''C'', LogError ''D''])
   \<and> (''g1'', [(''A'', 0.9), (''B'', 0.7)])
       \<in> set (cross_tumor_genes (collect_genes example_tables))
   \<and> list_all (\<lambda>item. snd item \<ge> (0.5 :: real)) [(''A'', 0.9), (''B'', 0.7)]"
proof -
  let ?self1 = "network_init\<lparr>tumor_types := [''A'', ''B'', ''C'', ''D''],
                     gene_counts := [(''A'', 0), (''B'', 0), (''C'', 0)]\<rparr>"
  have a: "load_all_data network_init example_files ''data'' [''A'', ''B'', ''C'', ''D'']
     = (example_tables, ?self1,
        [LogInfo ''A'' 2, LogInfo ''B'' 2, LogError ''C'', LogError ''D''])"
    by (simp add: load_all_data_def load_one_def file_path_def example_files_def
        example_tables_def network_init_def)
  have b: "(''g1'', [(''A'', 0.9), (''B'', 0.7)])
      \<in> set (cross_tumor_genes (collect_genes example_tables))"
    by (simp add: collect_example cross_tumor_genes_def)
  from threshold_guards_never_fire [OF a b]
  have "list_all (\<lambda>item. snd item \<ge> (0.5 :: real)) [(''A'', 0.9), (''B'', 0.7)]"
    by (simp add: network_init_def)
  then show ?thesis using a b by (simp add: example_tables_def)
qed

end
